theory Spec2Isabelle
  imports Complex_Main "HOL-Library.Word" "HOL-Library.Sublist"
begin

section \<open>Strings, buffers and numbers of the JavaScript runtime\<close>

text \<open>
  The repository is a set of command-line samples (\<^verbatim>\<open>fflate.ts\<close>, the minizip, JSZip,
  node:zlib and minizlib samples, ...) that hand the decompression to a library and do
  the path handling, the writing, the statistics and the reporting themselves.  The
  samples are embedded as functions over an explicit file system; what a library call
  returns or throws is an argument of the embedding.

  A JavaScript string is a \<^typ>\<open>string\<close>: a \<^typ>\<open>char\<close> is one of the 256 code units
  \<^verbatim>\<open>U+0000\<close> to \<^verbatim>\<open>U+00FF\<close> (ASCII and Latin-1), and strings with other code units
  are outside the embedding.  A \<^verbatim>\<open>Uint8Array\<close> or \<^verbatim>\<open>Buffer\<close> is a list of bytes, a
  counter is a \<^typ>\<open>nat\<close> (the samples count files and bytes far below \<open>2^53\<close>).
\<close>

type_synonym bytes = "8 word list"

definition slash :: char where
  "slash = CHR ''/''"

definition dot :: char where
  "dot = CHR ''.''"

text \<open>
  \<^verbatim>\<open>String.prototype.toLowerCase\<close>.  The cased characters up to \<^verbatim>\<open>U+00FF\<close> whose
  lowercase differs from them are \<^verbatim>\<open>A\<close> to \<^verbatim>\<open>Z\<close> (65 to 90) and the capital letters
  \<^verbatim>\<open>U+00C0\<close> to \<^verbatim>\<open>U+00DE\<close> (192 to 222) without the multiplication sign
  \<^verbatim>\<open>U+00D7\<close> (215); the lowercase of each is 32 further, and no rule of the conversion
  that looks at the neighbours of a character applies to these.
\<close>

definition lower_char :: "char \<Rightarrow> char" where
  "lower_char c =
     (let n = (of_char c :: nat)
      in if (65 \<le> n \<and> n \<le> 90) \<or> (192 \<le> n \<and> n \<le> 222 \<and> n \<noteq> 215)
         then char_of (n + 32) else c)"

definition toLowerCase :: "string \<Rightarrow> string" where
  "toLowerCase s = map lower_char s"

text \<open>\<^verbatim>\<open>s.slice(a, b)\<close> for \<open>0 \<le> a \<le> b \<le> length s\<close>.\<close>

definition slice :: "string \<Rightarrow> int \<Rightarrow> int \<Rightarrow> string" where
  "slice s a b = take (nat (b - a)) (drop (nat a) s)"

subsection \<open>Numbers: the quotient of two numbers may be infinite or NaN\<close>

text \<open>
  A JavaScript number is a double.  The throughput figures of the samples divide a byte
  count by a duration, and the claims about them are about the division by zero, so a
  number is a rational, an infinity or NaN; finite results are kept exact (rounding is
  left out).
\<close>

datatype jsnum = Finite rat | PosInfinity | NegInfinity | NaN

fun js_div :: "jsnum \<Rightarrow> jsnum \<Rightarrow> jsnum" where
  "js_div (Finite a) (Finite b) =
     (if b \<noteq> 0 then Finite (a / b)
      else if a = 0 then NaN
      else if 0 < a then PosInfinity else NegInfinity)"
| "js_div (Finite a) PosInfinity = Finite 0"
| "js_div (Finite a) NegInfinity = Finite 0"
| "js_div PosInfinity (Finite b) = (if 0 \<le> b then PosInfinity else NegInfinity)"
| "js_div NegInfinity (Finite b) = (if 0 \<le> b then NegInfinity else PosInfinity)"
| "js_div _ _ = NaN"

text \<open>\<^verbatim>\<open>x >= 1024\<close>: false for NaN.\<close>

fun js_ge_1024 :: "jsnum \<Rightarrow> bool" where
  "js_ge_1024 (Finite a) = (1024 \<le> a)"
| "js_ge_1024 PosInfinity = True"
| "js_ge_1024 NegInfinity = False"
| "js_ge_1024 NaN = False"

fun is_finite :: "jsnum \<Rightarrow> bool" where
  "is_finite (Finite a) = True"
| "is_finite _ = False"

text \<open>
  \<^verbatim>\<open>formatSize\<close> (the same helper in every sample that prints sizes):
  \<^verbatim>\<open>
  const units = ['B', 'KB', 'MB', 'GB'];
  let size = bytes; let unitIndex = 0;
  while (size >= 1024 && unitIndex < units.length - 1) { size /= 1024; unitIndex++; }
  return `${size.toFixed(1)} ${units[unitIndex]}`;
  \<close>
  The embedding returns the scaled number and the unit; \<^verbatim>\<open>toFixed(1)\<close> prints the
  number with one decimal, and prints \<^verbatim>\<open>Infinity\<close> and \<^verbatim>\<open>NaN\<close> as these words.
\<close>

definition units :: "string list" where
  "units = [''B'', ''KB'', ''MB'', ''GB'']"

function formatSize_loop :: "jsnum \<Rightarrow> nat \<Rightarrow> jsnum \<times> nat" where
  "formatSize_loop sz unitIndex =
     (if js_ge_1024 sz \<and> unitIndex < length units - 1
      then formatSize_loop (js_div sz (Finite 1024)) (unitIndex + 1)
      else (sz, unitIndex))"
  by pat_completeness auto

termination
  by (relation "measure (\<lambda>(sz, unitIndex). length units - unitIndex)") auto

definition formatSize :: "jsnum \<Rightarrow> jsnum \<times> string" where
  "formatSize b = (case formatSize_loop b 0 of (sz, unitIndex) \<Rightarrow> (sz, units ! unitIndex))"

section \<open>Node's \<^verbatim>\<open>path\<close> module (POSIX)\<close>

text \<open>
  The samples build every output path with \<^verbatim>\<open>path.join\<close>, take its directory with
  \<^verbatim>\<open>path.dirname\<close> and bucket files by \<^verbatim>\<open>path.extname\<close>.  These are functions of
  Node, not of the repository; they are embedded after Node's \<^verbatim>\<open>lib/path.js\<close>.
\<close>

text \<open>The segments between the separators, as \<^verbatim>\<open>s.split('/')\<close> gives them.\<close>

fun segments :: "string \<Rightarrow> string list" where
  "segments [] = [[]]"
| "segments (c # cs) =
     (if c = slash then [] # segments cs
      else (case segments cs of [] \<Rightarrow> [[c]] | s # ss \<Rightarrow> (c # s) # ss))"

text \<open>
  \<^verbatim>\<open>normalizeString\<close> handles one segment at every separator: an empty segment and
  \<^verbatim>\<open>.\<close> are dropped, \<^verbatim>\<open>..\<close> removes the last segment kept so far (when there is one
  and it is not itself \<^verbatim>\<open>..\<close>) and is otherwise kept only when \<open>allowAboveRoot\<close>; any
  other segment is appended.  \<open>res\<close> holds the segments kept so far, the last one first.
\<close>

definition normalize_segment :: "bool \<Rightarrow> string list \<Rightarrow> string \<Rightarrow> string list" where
  "normalize_segment allowAboveRoot res seg =
     (if seg = [] \<or> seg = ''.'' then res
      else if seg = ''..'' then
        (case res of
           [] \<Rightarrow> if allowAboveRoot then [''..''] else []
         | r # rs \<Rightarrow>
             if r \<noteq> ''..'' then rs
             else if allowAboveRoot then ''..'' # res else res)
      else seg # res)"

definition normalizeSegments :: "bool \<Rightarrow> string list \<Rightarrow> string list" where
  "normalizeSegments allowAboveRoot segs = rev (foldl (normalize_segment allowAboveRoot) [] segs)"

text \<open>The segments that are dropped, and the ones that are appended as they are.\<close>

definition skipped :: "string \<Rightarrow> bool" where
  "skipped seg = (seg = [] \<or> seg = ''.'')"

definition regular :: "string \<Rightarrow> bool" where
  "regular seg = (seg \<noteq> [] \<and> seg \<noteq> ''.'' \<and> seg \<noteq> ''..'')"

fun join_slash :: "string list \<Rightarrow> string" where
  "join_slash [] = []"
| "join_slash [s] = s"
| "join_slash (s # t # ss) = s @ slash # join_slash (t # ss)"

definition normalizeString :: "string \<Rightarrow> bool \<Rightarrow> string" where
  "normalizeString p allowAboveRoot = join_slash (normalizeSegments allowAboveRoot (segments p))"

text \<open>
  \<^verbatim>\<open>
  normalize(path) {
    if (path.length === 0) return '.';
    const isAbsolute = path.charCodeAt(0) === CHAR_FORWARD_SLASH;
    const trailingSeparator = path.charCodeAt(path.length - 1) === CHAR_FORWARD_SLASH;
    path = normalizeString(path, !isAbsolute, '/', isPosixPathSeparator);
    if (path.length === 0) {
      if (isAbsolute) return '/';
      return trailingSeparator ? './' : '.';
    }
    if (trailingSeparator) path += '/';
    return isAbsolute ? `/${path}` : path;
  }
  \<close>
\<close>

definition isAbsolute :: "string \<Rightarrow> bool" where
  "isAbsolute p = (p \<noteq> [] \<and> hd p = slash)"

definition trailingSeparator :: "string \<Rightarrow> bool" where
  "trailingSeparator p = (p \<noteq> [] \<and> last p = slash)"

definition normalize :: "string \<Rightarrow> string" where
  "normalize p =
     (if p = [] then ''.''
      else
        let s = normalizeString p (\<not> isAbsolute p) in
        if s = [] then
          (if isAbsolute p then ''/'' else if trailingSeparator p then ''./'' else ''.'')
        else
          let s' = (if trailingSeparator p then s @ ''/'' else s) in
          if isAbsolute p then slash # s' else s')"

text \<open>
  \<^verbatim>\<open>path.join(...args)\<close>: the non-empty arguments joined by \<^verbatim>\<open>/\<close>, normalized;
  \<^verbatim>\<open>'.'\<close> when nothing is left.
\<close>

definition path_join :: "string list \<Rightarrow> string" where
  "path_join args =
     (let parts = filter (\<lambda>a. a \<noteq> []) args
      in if parts = [] then ''.'' else normalize (join_slash parts))"

text \<open>
  \<^verbatim>\<open>
  dirname(path) {
    if (path.length === 0) return '.';
    const hasRoot = path.charCodeAt(0) === CHAR_FORWARD_SLASH;
    let end = -1;
    let matchedSlash = true;
    for (let i = path.length - 1; i >= 1; --i) {
      if (path.charCodeAt(i) === CHAR_FORWARD_SLASH) {
        if (!matchedSlash) { end = i; break; }
      } else {
        matchedSlash = false;
      }
    }
    if (end === -1) return hasRoot ? '/' : '.';
    if (hasRoot && end === 1) return '//';
    return path.slice(0, end);
  }
  \<close>
  \<open>dirname_loop p i matchedSlash\<close> runs the loop from index \<open>i\<close> down to \<open>1\<close> and
  returns \<open>end\<close>.
\<close>

fun dirname_loop :: "string \<Rightarrow> nat \<Rightarrow> bool \<Rightarrow> int" where
  "dirname_loop p 0 matchedSlash = - 1"
| "dirname_loop p (Suc i) matchedSlash =
     (if p ! Suc i = slash then
        (if \<not> matchedSlash then int (Suc i) else dirname_loop p i matchedSlash)
      else dirname_loop p i False)"

definition dirname :: "string \<Rightarrow> string" where
  "dirname p =
     (if p = [] then ''.''
      else
        let hasRoot = (hd p = slash);
            endIdx = dirname_loop p (length p - 1) True
        in if endIdx = - 1 then (if hasRoot then ''/'' else ''.'')
           else if hasRoot \<and> endIdx = 1 then ''//''
           else slice p 0 endIdx)"

text \<open>
  \<^verbatim>\<open>
  extname(path) {
    let startDot = -1; let startPart = 0; let end = -1;
    let matchedSlash = true; let preDotState = 0;
    for (let i = path.length - 1; i >= 0; --i) {
      const code = path.charCodeAt(i);
      if (code === CHAR_FORWARD_SLASH) {
        if (!matchedSlash) { startPart = i + 1; break; }
        continue;
      }
      if (end === -1) { matchedSlash = false; end = i + 1; }
      if (code === CHAR_DOT) {
        if (startDot === -1) startDot = i;
        else if (preDotState !== 1) preDotState = 1;
      } else if (startDot !== -1) {
        preDotState = -1;
      }
    }
    if (startDot === -1 || end === -1 || preDotState === 0 ||
        (preDotState === 1 && startDot === end - 1 && startDot === startPart + 1))
      return '';
    return path.slice(startDot, end);
  }
  \<close>
  \<open>extname_loop p n st\<close> runs the loop over the indices \<open>n - 1\<close> down to \<open>0\<close>.
\<close>

record extname_state =
  startDot :: int
  startPart :: int
  endIdx :: int
  matchedSlash :: bool
  preDotState :: int

definition extname_init :: extname_state where
  "extname_init =
     \<lparr>startDot = - 1, startPart = 0, endIdx = - 1, matchedSlash = True, preDotState = 0\<rparr>"

definition extname_char :: "bool \<Rightarrow> int \<Rightarrow> extname_state \<Rightarrow> extname_state" where
  "extname_char isDot i st =
     (let st1 = (if endIdx st = - 1 then st\<lparr>matchedSlash := False, endIdx := i + 1\<rparr> else st)
      in if isDot then
           (if startDot st1 = - 1 then st1\<lparr>startDot := i\<rparr>
            else if preDotState st1 \<noteq> 1 then st1\<lparr>preDotState := 1\<rparr> else st1)
         else if startDot st1 \<noteq> - 1 then st1\<lparr>preDotState := - 1\<rparr>
         else st1)"

fun extname_loop :: "string \<Rightarrow> nat \<Rightarrow> extname_state \<Rightarrow> extname_state" where
  "extname_loop p 0 st = st"
| "extname_loop p (Suc i) st =
     (if p ! i = slash then
        (if \<not> matchedSlash st then st\<lparr>startPart := int i + 1\<rparr>
         else extname_loop p i st)
      else extname_loop p i (extname_char (p ! i = dot) (int i) st))"

definition extname :: "string \<Rightarrow> string" where
  "extname p =
     (let st = extname_loop p (length p) extname_init
      in if startDot st = - 1 \<or> endIdx st = - 1 \<or> preDotState st = 0 \<or>
            (preDotState st = 1 \<and> startDot st = endIdx st - 1 \<and> startDot st = startPart st + 1)
         then [] else slice p (startDot st) (endIdx st))"

section \<open>The file system\<close>

text \<open>
  The samples call \<^verbatim>\<open>fs.existsSync\<close>, \<^verbatim>\<open>fs.mkdirSync(p, {recursive: true})\<close>,
  \<^verbatim>\<open>fs.writeFileSync\<close>, \<^verbatim>\<open>fs.readFileSync\<close> and \<^verbatim>\<open>fs.promises.readdir\<close>.
  The file system is a tree of directories and files with a working directory; a call
  fails the way POSIX makes it fail on the shape of the tree (a path through a file, a
  write onto a directory, a missing parent).  Permissions, links and full disks are left
  out.  \<open>journal\<close> lists the writes the file system accepted, in order.
\<close>

datatype fs_error = ENOENT | ENOTDIR | EISDIR | EEXIST

datatype node = File bytes | Dir "(string \<times> node) list"

record filesystem =
  root :: node
  cwd :: "string list"
  journal :: "(string \<times> bytes) list"

text \<open>The absolute location a path names: its segments from the root.\<close>

definition resolve :: "filesystem \<Rightarrow> string \<Rightarrow> string list" where
  "resolve fs p =
     normalizeSegments False ((if isAbsolute p then [] else cwd fs) @ segments p)"

fun lookup :: "node \<Rightarrow> string list \<Rightarrow> node option" where
  "lookup n [] = Some n"
| "lookup (File c) (s # ss) = None"
| "lookup (Dir es) (s # ss) = (case map_of es s of None \<Rightarrow> None | Some n \<Rightarrow> lookup n ss)"

fun update_entry :: "string \<Rightarrow> 'v \<Rightarrow> (string \<times> 'v) list \<Rightarrow> (string \<times> 'v) list" where
  "update_entry k v [] = [(k, v)]"
| "update_entry k v ((k', v') # es) =
     (if k' = k then (k, v) # es else (k', v') # update_entry k v es)"

definition existsSync :: "filesystem \<Rightarrow> string \<Rightarrow> bool" where
  "existsSync fs p =
     (p \<noteq> [] \<and>
      (case lookup (root fs) (resolve fs p) of
         None \<Rightarrow> False
       | Some (File c) \<Rightarrow> \<not> trailingSeparator p
       | Some (Dir es) \<Rightarrow> True))"

fun mkdirp :: "node \<Rightarrow> string list \<Rightarrow> fs_error + node" where
  "mkdirp (File c) [] = Inl EEXIST"
| "mkdirp (File c) (s # ss) = Inl ENOTDIR"
| "mkdirp (Dir es) [] = Inr (Dir es)"
| "mkdirp (Dir es) (s # ss) =
     (case mkdirp (case map_of es s of None \<Rightarrow> Dir [] | Some n \<Rightarrow> n) ss of
        Inl e \<Rightarrow> Inl e
      | Inr n' \<Rightarrow> Inr (Dir (update_entry s n' es)))"

text \<open>\<^verbatim>\<open>fs.mkdirSync(p, { recursive: true })\<close>\<close>

definition mkdirSync :: "filesystem \<Rightarrow> string \<Rightarrow> fs_error + filesystem" where
  "mkdirSync fs p =
     (if p = [] then Inl ENOENT
      else case mkdirp (root fs) (resolve fs p) of
             Inl e \<Rightarrow> Inl e
           | Inr r \<Rightarrow> Inr (fs\<lparr>root := r\<rparr>))"

fun write_node :: "node \<Rightarrow> string list \<Rightarrow> bytes \<Rightarrow> fs_error + node" where
  "write_node (File c0) [] c = Inr (File c)"
| "write_node (Dir es) [] c = Inl EISDIR"
| "write_node (File c0) (s # ss) c = Inl ENOTDIR"
| "write_node (Dir es) (s # ss) c =
     (case map_of es s of
        None \<Rightarrow> if ss = [] then Inr (Dir (update_entry s (File c) es)) else Inl ENOENT
      | Some n \<Rightarrow>
          (case write_node n ss c of
             Inl e \<Rightarrow> Inl e
           | Inr n' \<Rightarrow> Inr (Dir (update_entry s n' es))))"

text \<open>
  \<^verbatim>\<open>fs.writeFileSync(p, data)\<close>: creates or replaces the file.  A path that ends in a
  separator names a directory and cannot be opened for writing.
\<close>

definition writeFileSync :: "filesystem \<Rightarrow> string \<Rightarrow> bytes \<Rightarrow> fs_error + filesystem" where
  "writeFileSync fs p c =
     (if p = [] then Inl ENOENT
      else if trailingSeparator p then
        (case lookup (root fs) (resolve fs p) of
           Some (File c0) \<Rightarrow> Inl ENOTDIR
         | _ \<Rightarrow> Inl EISDIR)
      else case write_node (root fs) (resolve fs p) c of
             Inl e \<Rightarrow> Inl e
           | Inr r \<Rightarrow> Inr (fs\<lparr>root := r, journal := journal fs @ [(p, c)]\<rparr>))"

definition readFileSync :: "filesystem \<Rightarrow> string \<Rightarrow> fs_error + bytes" where
  "readFileSync fs p =
     (if p = [] then Inl ENOENT
      else case lookup (root fs) (resolve fs p) of
             None \<Rightarrow> Inl ENOENT
           | Some (Dir es) \<Rightarrow> Inl EISDIR
           | Some (File c) \<Rightarrow> if trailingSeparator p then Inl ENOTDIR else Inr c)"

text \<open>\<^verbatim>\<open>fs.promises.readdir(p, { withFileTypes: true })\<close>: the entries of a directory.\<close>

definition readdir :: "filesystem \<Rightarrow> string \<Rightarrow> fs_error + (string \<times> node) list" where
  "readdir fs p =
     (if p = [] then Inl ENOENT
      else case lookup (root fs) (resolve fs p) of
             None \<Rightarrow> Inl ENOENT
           | Some (File c) \<Rightarrow> Inl ENOTDIR
           | Some (Dir es) \<Rightarrow> Inr es)"

text \<open>A location lies under a directory when the directory's segments start it.\<close>

definition under :: "filesystem \<Rightarrow> string \<Rightarrow> string \<Rightarrow> bool" where
  "under fs dir p = prefix (resolve fs dir) (resolve fs p)"

section \<open>Statistics by file type\<close>

text \<open>
  Every sample that reports file types keeps a \<^verbatim>\<open>Record<string, number>\<close> and fills
  it with
  \<^verbatim>\<open>
  const ext = path.extname(name).toLowerCase() || '(no extension)';
  stats[ext] = (stats[ext] || 0) + 1;
  \<close>
  and prints it with
  \<^verbatim>\<open>
  Object.entries(fileTypes).sort((a, b) => b[1] - a[1]).forEach(...)
  \<close>
  The record is an association list in insertion order, which is the order
  \<^verbatim>\<open>Object.entries\<close> lists its keys in (no key is an array index: each starts with a dot
  or is the sentinel).  \<^verbatim>\<open>Array.prototype.sort\<close> is stable.
\<close>

type_synonym stats = "(string \<times> nat) list"

definition ext_key :: "string \<Rightarrow> string" where
  "ext_key name = (let e = toLowerCase (extname name) in if e = [] then ''(no extension)'' else e)"

definition get_count :: "stats \<Rightarrow> string \<Rightarrow> nat" where
  "get_count st k = (case map_of st k of None \<Rightarrow> 0 | Some n \<Rightarrow> n)"

definition add_count :: "stats \<Rightarrow> string \<Rightarrow> nat \<Rightarrow> stats" where
  "add_count st k n = update_entry k (get_count st k + n) st"

text \<open>
  The comparator \<^verbatim>\<open>(a, b) => b[1] - a[1]\<close> and the stable sort by it: an element goes
  before the first element of the sorted rest that the comparator does not put before it.
\<close>

definition compare_counts :: "string \<times> nat \<Rightarrow> string \<times> nat \<Rightarrow> int" where
  "compare_counts a b = int (snd b) - int (snd a)"

fun insert_sorted :: "('a \<Rightarrow> 'a \<Rightarrow> int) \<Rightarrow> 'a \<Rightarrow> 'a list \<Rightarrow> 'a list" where
  "insert_sorted cmp x [] = [x]"
| "insert_sorted cmp x (y # ys) =
     (if cmp x y \<le> 0 then x # y # ys else y # insert_sorted cmp x ys)"

definition stable_sort :: "('a \<Rightarrow> 'a \<Rightarrow> int) \<Rightarrow> 'a list \<Rightarrow> 'a list" where
  "stable_sort cmp xs = foldr (insert_sorted cmp) xs []"

definition sorted_file_types :: "stats \<Rightarrow> stats" where
  "sorted_file_types fileTypes = stable_sort compare_counts fileTypes"

text \<open>
  \<^verbatim>\<open>getFileTypeStats\<close> (\<^verbatim>\<open>fflate.ts\<close> and the extract-zip sample):
  \<^verbatim>\<open>
  const stats = {};
  const entries = await fs.promises.readdir(dirPath, { withFileTypes: true });
  for (const entry of entries) {
    const entryPath = path.join(dirPath, entry.name);
    if (entry.isDirectory()) {
      const subStats = await getFileTypeStats(entryPath);
      for (const [ext, count] of Object.entries(subStats))
        stats[ext] = (stats[ext] || 0) + count;
    } else {
      const ext = path.extname(entry.name).toLowerCase() || '(no extension)';
      stats[ext] = (stats[ext] || 0) + 1;
    }
  }
  return stats;
  \<close>
  The recursive call reads the directory \<^verbatim>\<open>entryPath\<close>, which is the entry's own
  subtree, so the walk is a recursion over the tree.
\<close>

definition merge_stats :: "stats \<Rightarrow> stats \<Rightarrow> stats" where
  "merge_stats st subStats = foldl (\<lambda>acc (ext, count). add_count acc ext count) st subStats"

fun walk_entries :: "(string \<times> node) list \<Rightarrow> stats \<Rightarrow> stats" where
  "walk_entries [] st = st"
| "walk_entries ((name, File c) # rest) st = walk_entries rest (add_count st (ext_key name) 1)"
| "walk_entries ((name, Dir es) # rest) st =
     walk_entries rest (merge_stats st (walk_entries es []))"

definition getFileTypeStats :: "filesystem \<Rightarrow> string \<Rightarrow> fs_error + stats" where
  "getFileTypeStats fs dirPath =
     (case readdir fs dirPath of Inl e \<Rightarrow> Inl e | Inr entries \<Rightarrow> Inr (walk_entries entries []))"

text \<open>
  For comparison: the number of files in a tree whose name has the bucket key \<open>k\<close>.
\<close>

fun count_files :: "string \<Rightarrow> (string \<times> node) list \<Rightarrow> nat" where
  "count_files k [] = 0"
| "count_files k ((name, File c) # rest) =
     (if ext_key name = k then 1 else 0) + count_files k rest"
| "count_files k ((name, Dir es) # rest) = count_files k es + count_files k rest"

section \<open>What a run ends with\<close>

text \<open>
  Every sample wraps its work in \<^verbatim>\<open>try { ... } catch (err) { ...; process.exit(1) }\<close>.
  A thrown value is an \<open>error\<close>: a failure of the file system, a message thrown by the
  library, or the missing input file that the samples test for first.
\<close>

datatype error = InputMissing | FsError fs_error | LibraryError string

datatype 'a outcome = Exit1 error | Completed 'a

definition completed :: "'a outcome \<Rightarrow> 'a option" where
  "completed r = (case r of Exit1 e \<Rightarrow> None | Completed s \<Rightarrow> Some s)"

text \<open>What a step that may throw returned, and what it threw.\<close>

definition returned :: "'e + 'a \<Rightarrow> 'a option" where
  "returned r = (case r of Inl e \<Rightarrow> None | Inr v \<Rightarrow> Some v)"

definition thrown :: "'e + 'a \<Rightarrow> 'e option" where
  "thrown r = (case r of Inl e \<Rightarrow> Some e | Inr v \<Rightarrow> None)"

text \<open>\<^verbatim>\<open>Date.now()\<close>: the \<open>k\<close>-th reading of the wall clock, in milliseconds.\<close>

type_synonym clock = "nat \<Rightarrow> int"

text \<open>
  The throughput figure of the samples:
  \<^verbatim>\<open>
  const elapsedSeconds = (Date.now() - startTime) / 1000;
  const bytesPerSecond = totalBytes / elapsedSeconds;
  \<close>
  and, at the end, \<^verbatim>\<open>totalBytes / totalTime\<close> with
  \<^verbatim>\<open>totalTime = (endTime - startTime) / 1000\<close>.
\<close>

definition elapsedSeconds :: "int \<Rightarrow> int \<Rightarrow> jsnum" where
  "elapsedSeconds startTime now = js_div (Finite (of_int (now - startTime))) (Finite 1000)"

definition bytesPerSecond :: "nat \<Rightarrow> int \<Rightarrow> int \<Rightarrow> jsnum" where
  "bytesPerSecond totalBytes startTime now =
     js_div (Finite (of_nat totalBytes)) (elapsedSeconds startTime now)"

section \<open>The fflate sample (\<^verbatim>\<open>fflate.ts\<close>)\<close>

text \<open>
  \<^verbatim>\<open>
  function ensureDir(dirPath: string) {
    if (!fs.existsSync(dirPath)) fs.mkdirSync(dirPath, { recursive: true });
  }
  \<close>
\<close>

definition ensureDir :: "filesystem \<Rightarrow> string \<Rightarrow> fs_error + filesystem" where
  "ensureDir fs dirPath = (if \<not> existsSync fs dirPath then mkdirSync fs dirPath else Inr fs)"

text \<open>
  The counters of \<^verbatim>\<open>extractZipFile\<close>:
  \<^verbatim>\<open>let totalBytes = 0; let fileCount = 0; let dirCount = 0;\<close>
\<close>

record counters =
  totalBytes :: nat
  fileCount :: nat
  dirCount :: nat

definition counters_init :: counters where
  "counters_init = \<lparr>totalBytes = 0, fileCount = 0, dirCount = 0\<rparr>"

text \<open>
  The loop over what \<^verbatim>\<open>unzipSync\<close> returned (lines 91 to 108):
  \<^verbatim>\<open>
  for (const [filename, contents] of Object.entries(files)) {
    const filePath = path.join(outputDir, filename);
    const fileDir = path.dirname(filePath);
    ensureDir(fileDir);
    const fileContents = contents as Uint8Array;
    fs.writeFileSync(filePath, fileContents);
    totalBytes += fileContents.length;
    fileCount++;
    process.stdout.write(...);
  }
  \<close>
  A throw leaves the loop (the only \<^verbatim>\<open>catch\<close> is the one around the whole function);
  the file system keeps what was written before.

  The loop calls the file system twice, through \<^verbatim>\<open>ensureDir\<close> and through
  \<^verbatim>\<open>fs.writeFileSync\<close>.  \<open>extract_loop\<close> is the loop with these two calls as its
  arguments \<open>mkdirs\<close> and \<open>writeFile\<close>, over any type of file system, so that what the
  loop does to its counters can be stated for whatever the two calls do;
  \<open>extract_files\<close> is the loop of the sample, on the file system above.
\<close>

fun extract_loop ::
  "('fs \<Rightarrow> string \<Rightarrow> 'e + 'fs) \<Rightarrow> ('fs \<Rightarrow> string \<Rightarrow> bytes \<Rightarrow> 'e + 'fs) \<Rightarrow> string
     \<Rightarrow> (string \<times> bytes) list \<Rightarrow> 'fs \<Rightarrow> counters \<Rightarrow> 'fs \<times> ('e + counters)"
where
  "extract_loop mkdirs writeFile outputDir [] fs st = (fs, Inr st)"
| "extract_loop mkdirs writeFile outputDir ((filename, contents) # rest) fs st =
     (let filePath = path_join [outputDir, filename];
          fileDir = dirname filePath
      in case mkdirs fs fileDir of
           Inl e \<Rightarrow> (fs, Inl e)
         | Inr fs1 \<Rightarrow>
             (case writeFile fs1 filePath contents of
                Inl e \<Rightarrow> (fs1, Inl e)
              | Inr fs2 \<Rightarrow>
                  extract_loop mkdirs writeFile outputDir rest fs2
                    (st\<lparr>totalBytes := totalBytes st + length contents,
                        fileCount := fileCount st + 1\<rparr>)))"

definition extract_files ::
  "string \<Rightarrow> (string \<times> bytes) list \<Rightarrow> filesystem \<Rightarrow> counters \<Rightarrow> filesystem \<times> (fs_error + counters)"
where
  "extract_files = extract_loop ensureDir writeFileSync"

text \<open>What the summary prints (lines 119 to 135).\<close>

record summary =
  timeTaken :: jsnum
  inputSize :: nat
  extractedSize :: nat
  compressionRatio :: jsnum
  averageSpeed :: "jsnum \<times> string"
  files :: nat
  directories :: nat
  fileTypes :: stats

definition stat_size :: "filesystem \<Rightarrow> string \<Rightarrow> fs_error + nat" where
  "stat_size fs p =
     (if p = [] then Inl ENOENT
      else case lookup (root fs) (resolve fs p) of
             None \<Rightarrow> Inl ENOENT
           | Some (Dir es) \<Rightarrow> Inr 0
           | Some (File c) \<Rightarrow> if trailingSeparator p then Inl ENOTDIR else Inr (length c))"

text \<open>
  The part of \<^verbatim>\<open>extractZipFile\<close> after \<^verbatim>\<open>unzipSync\<close> has returned \<open>files\<close>:
  the counters set to zero, the loop, the second clock reading, the walk of the output
  directory, the summary.  As for the loop, \<open>run_and_report\<close> has the calls into the
  file system as arguments (\<open>typeStats\<close> is \<^verbatim>\<open>getFileTypeStats\<close>), and
  \<open>extract_and_report\<close> is this part of the sample on the file system above.
\<close>

definition run_and_report ::
  "('fs \<Rightarrow> string \<Rightarrow> fs_error + 'fs) \<Rightarrow> ('fs \<Rightarrow> string \<Rightarrow> bytes \<Rightarrow> fs_error + 'fs)
     \<Rightarrow> ('fs \<Rightarrow> string \<Rightarrow> fs_error + stats) \<Rightarrow> clock \<Rightarrow> string \<Rightarrow> nat
     \<Rightarrow> (string \<times> bytes) list \<Rightarrow> 'fs \<Rightarrow> 'fs \<times> summary outcome"
where
  "run_and_report mkdirs writeFile typeStats now outputDir inputBytes entries fs =
     (let startTime = now 0 in
      case extract_loop mkdirs writeFile outputDir entries fs counters_init of
        (fs1, Inl e) \<Rightarrow> (fs1, Exit1 (FsError e))
      | (fs1, Inr st) \<Rightarrow>
          (let endTime = now 1;
               totalTime = elapsedSeconds startTime endTime
           in case typeStats fs1 outputDir of
                Inl e \<Rightarrow> (fs1, Exit1 (FsError e))
              | Inr types \<Rightarrow>
                  (fs1, Completed
                     \<lparr>timeTaken = totalTime,
                      inputSize = inputBytes,
                      extractedSize = totalBytes st,
                      compressionRatio = js_div (Finite (of_nat (totalBytes st))) (Finite (of_nat inputBytes)),
                      averageSpeed = formatSize (js_div (Finite (of_nat (totalBytes st))) totalTime),
                      files = fileCount st,
                      directories = dirCount st,
                      fileTypes = sorted_file_types types\<rparr>)))"

definition extract_and_report ::
  "clock \<Rightarrow> string \<Rightarrow> nat \<Rightarrow> (string \<times> bytes) list \<Rightarrow> filesystem \<Rightarrow> filesystem \<times> summary outcome"
where
  "extract_and_report = run_and_report ensureDir writeFileSync getFileTypeStats"

text \<open>
  \<^verbatim>\<open>extractZipFile\<close>.  \<open>unzipSync\<close> is fflate's function: the object it returns, as
  \<^verbatim>\<open>Object.entries\<close> lists it, or the message it throws.
\<close>

definition extractZipFile ::
  "(bytes \<Rightarrow> string + (string \<times> bytes) list) \<Rightarrow> clock \<Rightarrow> string \<Rightarrow> string \<Rightarrow> filesystem
     \<Rightarrow> filesystem \<times> summary outcome"
where
  "extractZipFile unzipSync now inputFile outputDir fs =
     (if \<not> existsSync fs inputFile then (fs, Exit1 InputMissing)
      else case stat_size fs inputFile of
        Inl e \<Rightarrow> (fs, Exit1 (FsError e))
      | Inr inputBytes \<Rightarrow>
          (case ensureDir fs outputDir of
             Inl e \<Rightarrow> (fs, Exit1 (FsError e))
           | Inr fs1 \<Rightarrow>
               (case readFileSync fs1 inputFile of
                  Inl e \<Rightarrow> (fs1, Exit1 (FsError e))
                | Inr zipData \<Rightarrow>
                    (case unzipSync zipData of
                       Inl msg \<Rightarrow> (fs1, Exit1 (LibraryError msg))
                     | Inr entries \<Rightarrow> extract_and_report now outputDir inputBytes entries fs1))))"

section \<open>The minizip sample (\<^verbatim>\<open>minizip.ts\<close>)\<close>

text \<open>
  An entry of the archive as the library lists it.  The sample reads \<^verbatim>\<open>entry.path\<close>
  and \<^verbatim>\<open>entry.isDirectory\<close>; whatever else the library keeps in an entry is the
  record's extension.
\<close>

record entry =
  path :: string
  isDirectory :: bool

text \<open>What the sample prints for an entry: the progress line, or the line of the \<^verbatim>\<open>catch\<close>.\<close>

datatype log_line =
    Extracted string nat nat nat jsnum
  | ErrorExtracting string error

fun line_path :: "log_line \<Rightarrow> string" where
  "line_path (Extracted p n k t v) = p"
| "line_path (ErrorExtracting p e) = p"

fun is_error_line :: "log_line \<Rightarrow> bool" where
  "is_error_line (Extracted p n k t v) = False"
| "is_error_line (ErrorExtracting p e) = True"

text \<open>
  The variables of the loop: \<^verbatim>\<open>extractedCount\<close>, \<^verbatim>\<open>totalBytes\<close>, \<^verbatim>\<open>fileTypes\<close>;
  the number of clock readings made so far; the lines printed so far.
\<close>

record progress =
  extractedCount :: nat
  extractedBytes :: nat
  typeCounts :: stats
  clockReads :: nat
  console :: "log_line list"

text \<open>
  Before the loop:
  \<^verbatim>\<open>let extractedCount = 0; let totalBytes = 0; const fileTypes = {};\<close>;
  the clock has been read once, for \<^verbatim>\<open>startTime\<close>.
\<close>

definition progress_init :: progress where
  "progress_init =
     \<lparr>extractedCount = 0, extractedBytes = 0, typeCounts = [], clockReads = 1, console = []\<rparr>"

text \<open>
  The body of the \<^verbatim>\<open>try\<close> for one entry (lines 77 to 112):
  \<^verbatim>\<open>
  if (entry.isDirectory) { extractedCount++; continue; }
  const outputPath = path.join(outputDir, entry.path);
  const outputDirPath = path.dirname(outputPath);
  if (!fs.existsSync(outputDirPath)) fs.mkdirSync(outputDirPath, { recursive: true });
  const content = await zip.extractEntry(entry);
  fs.writeFileSync(outputPath, content);
  totalBytes += content.length;
  const ext = path.extname(entry.path).toLowerCase() || '(no extension)';
  fileTypes[ext] = (fileTypes[ext] || 0) + 1;
  extractedCount++;
  const progress = Math.round((extractedCount / totalFiles) * 100);
  const elapsedSeconds = (Date.now() - startTime) / 1000;
  const bytesPerSecond = totalBytes / elapsedSeconds;
  console.log(`[${progress}%] Extracted: ${entry.path} (${formatSize(content.length)}, ` +
              `${extractedCount}/${totalFiles}, ${formatSize(bytesPerSecond)}/sec)`);
  \<close>
  \<open>extractEntry\<close> is the library's function.  The progress line keeps the path, the
  length of the content, the two counts and the throughput as values (the sample prints
  the sizes through \<^verbatim>\<open>formatSize\<close>); the percentage is left out.
\<close>

definition extract_entry ::
  "('a entry_scheme \<Rightarrow> string + bytes) \<Rightarrow> clock \<Rightarrow> string \<Rightarrow> int \<Rightarrow> nat
     \<Rightarrow> filesystem \<Rightarrow> progress \<Rightarrow> 'a entry_scheme \<Rightarrow> filesystem \<times> (error + progress)"
where
  "extract_entry extractEntry now outputDir startTime totalFiles fs st e =
     (if isDirectory e then (fs, Inr (st\<lparr>extractedCount := extractedCount st + 1\<rparr>))
      else
        let outputPath = path_join [outputDir, path e];
            outputDirPath = dirname outputPath
        in case (if \<not> existsSync fs outputDirPath then mkdirSync fs outputDirPath else Inr fs) of
             Inl err \<Rightarrow> (fs, Inl (FsError err))
           | Inr fs1 \<Rightarrow>
               (case extractEntry e of
                  Inl msg \<Rightarrow> (fs1, Inl (LibraryError msg))
                | Inr content \<Rightarrow>
                    (case writeFileSync fs1 outputPath content of
                       Inl err \<Rightarrow> (fs1, Inl (FsError err))
                     | Inr fs2 \<Rightarrow>
                         (let total = extractedBytes st + length content;
                              count = extractedCount st + 1;
                              speed = bytesPerSecond total startTime (now (clockReads st))
                          in (fs2, Inr
                                \<lparr>extractedCount = count,
                                 extractedBytes = total,
                                 typeCounts = add_count (typeCounts st) (ext_key (path e)) 1,
                                 clockReads = clockReads st + 1,
                                 console = console st @
                                   [Extracted (path e) (length content) count totalFiles speed]\<rparr>)))))"

text \<open>
  The loop with its \<^verbatim>\<open>catch\<close> (lines 75 to 118):
  \<^verbatim>\<open>
  for (const entry of entries) {
    try { ... } catch (err) {
      console.error(`Error extracting ${entry.path}: ${err}`);
      // Continue with next file
    }
  }
  \<close>
\<close>

fun extract_entries ::
  "('a entry_scheme \<Rightarrow> string + bytes) \<Rightarrow> clock \<Rightarrow> string \<Rightarrow> int \<Rightarrow> nat
     \<Rightarrow> 'a entry_scheme list \<Rightarrow> filesystem \<Rightarrow> progress \<Rightarrow> filesystem \<times> progress"
where
  "extract_entries extractEntry now outputDir startTime totalFiles [] fs st = (fs, st)"
| "extract_entries extractEntry now outputDir startTime totalFiles (e # es) fs st =
     (case extract_entry extractEntry now outputDir startTime totalFiles fs st e of
        (fs1, Inr st1) \<Rightarrow>
          extract_entries extractEntry now outputDir startTime totalFiles es fs1 st1
      | (fs1, Inl err) \<Rightarrow>
          extract_entries extractEntry now outputDir startTime totalFiles es fs1
            (st\<lparr>console := console st @ [ErrorExtracting (path e) err]\<rparr>))"

text \<open>
  For comparison: the number of progress lines (entries the run reports as extracted)
  whose path has the bucket key \<open>k\<close>.
\<close>

definition extracted_with :: "string \<Rightarrow> log_line list \<Rightarrow> nat" where
  "extracted_with k ls =
     length (filter (\<lambda>l. \<not> is_error_line l \<and> ext_key (line_path l) = k) ls)"

text \<open>What the sample has printed when it ends (lines 127 to 138).\<close>

record report =
  totalSize :: nat
  seconds :: jsnum
  speed :: "jsnum \<times> string"
  typesExtracted :: stats
  printed :: "log_line list"

text \<open>
  \<^verbatim>\<open>extractZip\<close>.  \<open>openArchive\<close> stands for \<^verbatim>\<open>instantiate()\<close>,
  \<^verbatim>\<open>minizip.openArchive(data)\<close> and \<^verbatim>\<open>zip.getEntries()\<close>: the entries, or the
  message thrown.  The first clock reading is \<^verbatim>\<open>startTime\<close>, the last is
  \<^verbatim>\<open>endTime\<close>; the script has checked the input file and made the output directory
  before it calls \<^verbatim>\<open>extractZip\<close>.
\<close>

definition extractZip ::
  "(bytes \<Rightarrow> string + 'a entry_scheme list) \<Rightarrow> ('a entry_scheme \<Rightarrow> string + bytes) \<Rightarrow> clock
     \<Rightarrow> string \<Rightarrow> string \<Rightarrow> filesystem \<Rightarrow> filesystem \<times> report outcome"
where
  "extractZip openArchive extractEntry now inputFile outputDir fs =
     (if \<not> existsSync fs inputFile then (fs, Exit1 InputMissing)
      else case (if \<not> existsSync fs outputDir then mkdirSync fs outputDir else Inr fs) of
        Inl e \<Rightarrow> (fs, Exit1 (FsError e))
      | Inr fs1 \<Rightarrow>
          (case readFileSync fs1 inputFile of
             Inl e \<Rightarrow> (fs1, Exit1 (FsError e))
           | Inr zipData \<Rightarrow>
               (let startTime = now 0 in
                case openArchive zipData of
                  Inl msg \<Rightarrow> (fs1, Exit1 (LibraryError msg))
                | Inr entries \<Rightarrow>
                    (case extract_entries extractEntry now outputDir startTime (length entries)
                            entries fs1 progress_init of
                       (fs2, st) \<Rightarrow>
                         (let endTime = now (clockReads st);
                              totalTime = elapsedSeconds startTime endTime
                          in (fs2, Completed
                                \<lparr>totalSize = extractedBytes st,
                                 seconds = totalTime,
                                 speed = formatSize (js_div (Finite (of_nat (extractedBytes st))) totalTime),
                                 typesExtracted = sorted_file_types (typeCounts st),
                                 printed = console st\<rparr>))))))"

section \<open>The node:zlib sample (\<^verbatim>\<open>node-zlib.ts\<close>)\<close>

text \<open>
  The three decompressors of \<^verbatim>\<open>node:zlib\<close> that the sample calls, each returning
  the decompressed buffer or throwing.
\<close>

datatype strategy = Deflate | RawDeflate | GzipWrapped

record zlib =
  inflateSync :: "bytes \<Rightarrow> string + bytes"
  inflateRawSync :: "bytes \<Rightarrow> string + bytes"
  gunzipSync :: "bytes \<Rightarrow> string + bytes"

fun decompress :: "zlib \<Rightarrow> strategy \<Rightarrow> bytes \<Rightarrow> string + bytes" where
  "decompress z Deflate d = inflateSync z d"
| "decompress z RawDeflate d = inflateRawSync z d"
| "decompress z GzipWrapped d = gunzipSync z d"

text \<open>
  One \<^verbatim>\<open>try\<close> block of the chain (lines 49 to 54, 60 to 65, 71 to 76):
  \<^verbatim>\<open>
  const decompressedData = zlib.inflateSync(compressedData);
  fs.writeFileSync(outputFile, decompressedData);
  console.log(...); process.exit(0);
  \<close>
\<close>

definition try_strategy ::
  "zlib \<Rightarrow> filesystem \<Rightarrow> string \<Rightarrow> bytes \<Rightarrow> strategy \<Rightarrow> error + filesystem"
where
  "try_strategy z fs outputFile compressedData s =
     (case decompress z s compressedData of
        Inl msg \<Rightarrow> Inl (LibraryError msg)
      | Inr decompressedData \<Rightarrow>
          (case writeFileSync fs outputFile decompressedData of
             Inl e \<Rightarrow> Inl (FsError e)
           | Inr fs1 \<Rightarrow> Inr fs1))"

text \<open>The exit code of the process and the strategies it called, in order.\<close>

record zlib_run =
  exitCode :: nat
  attempted :: "strategy list"

text \<open>
  The chain of the three \<^verbatim>\<open>try\<close> blocks (lines 48 to 83): the \<^verbatim>\<open>catch\<close> of the
  first two only prints and goes on, the third exits with 1.
\<close>

definition decompress_chain ::
  "zlib \<Rightarrow> string \<Rightarrow> bytes \<Rightarrow> filesystem \<Rightarrow> filesystem \<times> zlib_run"
where
  "decompress_chain z outputFile compressedData fs =
     (case try_strategy z fs outputFile compressedData Deflate of
        Inr fs1 \<Rightarrow> (fs1, \<lparr>exitCode = 0, attempted = [Deflate]\<rparr>)
      | Inl e1 \<Rightarrow>
          (case try_strategy z fs outputFile compressedData RawDeflate of
             Inr fs1 \<Rightarrow> (fs1, \<lparr>exitCode = 0, attempted = [Deflate, RawDeflate]\<rparr>)
           | Inl e2 \<Rightarrow>
               (case try_strategy z fs outputFile compressedData GzipWrapped of
                  Inr fs1 \<Rightarrow>
                    (fs1, \<lparr>exitCode = 0, attempted = [Deflate, RawDeflate, GzipWrapped]\<rparr>)
                | Inl e3 \<Rightarrow>
                    (fs, \<lparr>exitCode = 1, attempted = [Deflate, RawDeflate, GzipWrapped]\<rparr>))))"

text \<open>
  The script: the input check, the output directory, the read (lines 25 to 46), then the
  chain.
\<close>

definition decompress_file ::
  "zlib \<Rightarrow> string \<Rightarrow> string \<Rightarrow> filesystem \<Rightarrow> filesystem \<times> zlib_run"
where
  "decompress_file z inputFile outputFile fs =
     (if \<not> existsSync fs inputFile then (fs, \<lparr>exitCode = 1, attempted = []\<rparr>)
      else
        let outputDir = dirname outputFile in
        case (if \<not> existsSync fs outputDir then mkdirSync fs outputDir else Inr fs) of
          Inl e \<Rightarrow> (fs, \<lparr>exitCode = 1, attempted = []\<rparr>)
        | Inr fs1 \<Rightarrow>
            (case readFileSync fs1 inputFile of
               Inl e \<Rightarrow> (fs1, \<lparr>exitCode = 1, attempted = []\<rparr>)
             | Inr compressedData \<Rightarrow> decompress_chain z outputFile compressedData fs1))"

section \<open>The minizlib sample (\<^verbatim>\<open>minizlib.ts\<close>)\<close>

text \<open>
  The handler of the \<^verbatim>\<open>data\<close> event (lines 84 to 98):
  \<^verbatim>\<open>
  totalBytes += chunk.length;
  const now = Date.now();
  if (now - lastProgress >= 100) {
    const elapsedSeconds = (now - startTime) / 1000;
    const bytesPerSecond = totalBytes / elapsedSeconds;
    console.log(`Processed: ${formatSize(totalBytes)} (${formatSize(bytesPerSecond)}/sec)`);
    lastProgress = now;
  }
  \<close>
\<close>

record tracker =
  processedBytes :: nat
  lastProgress :: int

definition on_data :: "int \<Rightarrow> tracker \<Rightarrow> nat \<Rightarrow> int \<Rightarrow> tracker \<times> jsnum option" where
  "on_data startTime t chunkLength now =
     (let total = processedBytes t + chunkLength in
      if now - lastProgress t \<ge> 100
      then (\<lparr>processedBytes = total, lastProgress = now\<rparr>, Some (bytesPerSecond total startTime now))
      else (\<lparr>processedBytes = total, lastProgress = lastProgress t\<rparr>, None))"

text \<open>
  The two attempts of \<^verbatim>\<open>extractCompressed\<close> (lines 100 to 152).  Each is a stream
  pipeline into the output file.  How a pipeline ends is decided by the streams: it
  completes, it rejects (the \<^verbatim>\<open>catch\<close> runs), or one of the \<^verbatim>\<open>error\<close> handlers of
  lines 72 to 80 ends the process first.  The first attempt is
  \<^verbatim>\<open>new Unzip({chunkSize})\<close>, which reads a zlib or a gzip header; the second is
  \<^verbatim>\<open>new Unzip({chunkSize, windowBits: -15})\<close>, without header.  After the second
  \<^verbatim>\<open>catch\<close> the error is thrown again and the process exits with 1.
\<close>

datatype pipeline_end = PipelineDone | PipelineRejected | HandlerExit

datatype unzip_mode = UnzipWithHeader | UnzipNoHeader

record minizlib_run =
  exit_code :: nat
  pipelines :: "unzip_mode list"

definition extractCompressed :: "pipeline_end \<Rightarrow> pipeline_end \<Rightarrow> minizlib_run" where
  "extractCompressed first second =
     (case first of
        PipelineDone \<Rightarrow> \<lparr>exit_code = 0, pipelines = [UnzipWithHeader]\<rparr>
      | HandlerExit \<Rightarrow> \<lparr>exit_code = 1, pipelines = [UnzipWithHeader]\<rparr>
      | PipelineRejected \<Rightarrow>
          (case second of
             PipelineDone \<Rightarrow> \<lparr>exit_code = 0, pipelines = [UnzipWithHeader, UnzipNoHeader]\<rparr>
           | HandlerExit \<Rightarrow> \<lparr>exit_code = 1, pipelines = [UnzipWithHeader, UnzipNoHeader]\<rparr>
           | PipelineRejected \<Rightarrow> \<lparr>exit_code = 1, pipelines = [UnzipWithHeader, UnzipNoHeader]\<rparr>))"

section \<open>Example inputs\<close>

text \<open>
  A small file system: the working directory \<^verbatim>\<open>/tmp\<close> holds the archive
  \<^verbatim>\<open>in.zip\<close> and an output directory \<^verbatim>\<open>out\<close> with one file from an earlier
  run; \<^verbatim>\<open>/etc/passwd\<close> lies outside.  The clock advances by 250 ms a reading.
\<close>

definition example_fs :: filesystem where
  "example_fs =
     \<lparr>root = Dir [(''tmp'', Dir [(''in.zip'', File [80, 75, 5, 6]),
                               (''out'', Dir [(''old.txt'', File [1, 2])])]),
                  (''etc'', Dir [(''passwd'', File [114, 111, 111, 116])])],
      cwd = [''tmp''],
      journal = []\<rparr>"

definition example_clock :: clock where
  "example_clock k = 1700000000000 + 250 * int k"

text \<open>
  What \<^verbatim>\<open>unzipSync\<close> returns for an archive with one entry whose name climbs out of
  the extraction directory, and for one whose name is rooted.
\<close>

definition climbing_entry :: "(string \<times> bytes) list" where
  "climbing_entry = [(''../../etc/passwd'', [6, 6, 6])]"

definition rooted_entry :: "(string \<times> bytes) list" where
  "rooted_entry = [(''/etc/passwd'', [6, 6, 6])]"

text \<open>
  An entry list of a library that also gives the uncompressed size the archive declares:
  one entry that declares 10 bytes.
\<close>

record sized_entry = entry +
  uncompressedSize :: nat

definition declares_ten :: "sized_entry list" where
  "declares_ten = [\<lparr>path = ''a/c.bin'', isDirectory = False, uncompressedSize = 10\<rparr>]"

text \<open>
  What \<^verbatim>\<open>unzipSync\<close> returns for an archive that lists the directory \<^verbatim>\<open>a/\<close>
  before the file in it (a directory entry has empty contents).
\<close>

definition directory_first :: "(string \<times> bytes) list" where
  "directory_first = [(''a/'', []), (''a/b.txt'', replicate 10 65)]"

text \<open>
  What \<^verbatim>\<open>unzipSync\<close> returns for an archive whose first file would lie inside
  \<^verbatim>\<open>old.txt\<close>, which is a file of the output directory.
\<close>

definition blocked_first :: "(string \<times> bytes) list" where
  "blocked_first = [(''old.txt/x'', [1]), (''b.txt'', replicate 10 65)]"

text \<open>
  An archive of a directory and four files.  The file system refuses the second file
  (\<^verbatim>\<open>old.txt\<close> is a file, not a directory), the library throws on the third.
\<close>

definition mixed_entries :: "entry list" where
  "mixed_entries =
     [\<lparr>path = ''a/'', isDirectory = True\<rparr>,
      \<lparr>path = ''a/b.TXT'', isDirectory = False\<rparr>,
      \<lparr>path = ''old.txt/x'', isDirectory = False\<rparr>,
      \<lparr>path = ''c.txt'', isDirectory = False\<rparr>,
      \<lparr>path = ''d.md'', isDirectory = False\<rparr>]"

definition upper_entry :: entry where
  "upper_entry = \<lparr>path = ''a/b.TXT'', isDirectory = False\<rparr>"

definition failing_entry :: entry where
  "failing_entry = \<lparr>path = ''c.txt'', isDirectory = False\<rparr>"

definition flaky_extractEntry :: "entry \<Rightarrow> string + bytes" where
  "flaky_extractEntry e =
     (if path e = ''c.txt'' then Inl ''invalid distance too far back'' else Inr [104, 105])"

text \<open>A clock that is read twice within the same millisecond.\<close>

definition frozen_clock :: clock where
  "frozen_clock k = 1700000000000"

text \<open>
  An archive of seven files that the library lists in this order; their extensions are
  met in the order \<^verbatim>\<open>.txt\<close>, \<^verbatim>\<open>.png\<close>, \<^verbatim>\<open>.md\<close>.
\<close>

definition seven_entries :: "entry list" where
  "seven_entries =
     map (\<lambda>p. \<lparr>path = p, isDirectory = False\<rparr>)
       [''a.txt'', ''logo.png'', ''README.md'', ''b.txt'', ''c.txt'', ''CHANGES.md'', ''TODO.md'']"

definition three_types :: stats where
  "three_types = [(''.txt'', 3), (''.png'', 1), (''.md'', 3)]"

text \<open>
  Two behaviours of \<^verbatim>\<open>node:zlib\<close> on an input: one that is a raw deflate stream (only
  \<^verbatim>\<open>inflateRawSync\<close> accepts it), one that is a zlib stream (only
  \<^verbatim>\<open>inflateSync\<close> accepts it).
\<close>

definition raw_stream :: zlib where
  "raw_stream =
     \<lparr>inflateSync = (\<lambda>d. Inl ''incorrect header check''),
      inflateRawSync = (\<lambda>d. Inr [104, 105]),
      gunzipSync = (\<lambda>d. Inl ''incorrect header check'')\<rparr>"

definition zlib_stream :: zlib where
  "zlib_stream =
     \<lparr>inflateSync = (\<lambda>d. Inr [104, 105]),
      inflateRawSync = (\<lambda>d. Inl ''invalid stored block lengths''),
      gunzipSync = (\<lambda>d. Inl ''incorrect header check'')\<rparr>"

text \<open>What \<^verbatim>\<open>unzipSync\<close> returns for an archive of two files in a directory \<^verbatim>\<open>a\<close>.\<close>

definition two_files :: "(string \<times> bytes) list" where
  "two_files = [(''a/b.txt'', replicate 10 65), (''a/c.bin'', replicate 50 0)]"


definition folders_and_files :: "(string \<times> bytes) list" where
  "folders_and_files = [(''docs/'', []), (''docs/a.txt'', replicate 10 65), (''img/'', [])]"

text \<open>
  A file system that accepts whatever it is asked to do, names that end in a separator
  included: it is the list of the writes made so far, and every write is a file of it.
\<close>

definition accepting_mkdirs ::
  "(string \<times> bytes) list \<Rightarrow> string \<Rightarrow> fs_error + (string \<times> bytes) list" where
  "accepting_mkdirs written dirPath = Inr written"

definition accepting_writeFile ::
  "(string \<times> bytes) list \<Rightarrow> string \<Rightarrow> bytes \<Rightarrow> fs_error + (string \<times> bytes) list" where
  "accepting_writeFile written p c = Inr (written @ [(p, c)])"

definition accepting_typeStats :: "(string \<times> bytes) list \<Rightarrow> string \<Rightarrow> fs_error + stats" where
  "accepting_typeStats written dirPath =
     Inr (foldl (\<lambda>acc (p, c). add_count acc (ext_key p) 1) [] written)"

text \<open>
  An output directory with four files: two whose extensions differ in case only, one
  without a dot, one whose only dot is its first character.
\<close>

definition mixed_case_fs :: filesystem where
  "mixed_case_fs =
     \<lparr>root = Dir [(''out'', Dir [(''A.TXT'', File [1]), (''Makefile'', File [2]),
                                 (''b.txt'', File [3]), (''.gitignore'', File [4])])],
      cwd = [],
      journal = []\<rparr>"

section \<open>Facts about paths\<close>

lemma segments_nonempty: "segments p \<noteq> []"
  by (induction p) (auto split: list.splits)

lemma lower_char_slash: "lower_char c = slash \<longleftrightarrow> c = slash"
proof -
  have "of_char (lower_char c) = (47::nat) \<longleftrightarrow> of_char c = (47::nat)"
    by (auto simp: lower_char_def Let_def)
  moreover have "of_char slash = (47::nat)" by (simp add: slash_def)
  ultimately show ?thesis
    by (metis of_char_eq_iff)
qed

lemma lower_char_dot: "lower_char c = dot \<longleftrightarrow> c = dot"
proof -
  have "of_char (lower_char c) = (46::nat) \<longleftrightarrow> of_char c = (46::nat)"
    by (auto simp: lower_char_def Let_def)
  moreover have "of_char dot = (46::nat)" by (simp add: dot_def)
  ultimately show ?thesis
    by (metis of_char_eq_iff)
qed

text \<open>The loop of \<^verbatim>\<open>extname\<close> only asks whether a character is a separator or a dot.\<close>

lemma extname_loop_lower:
  "n \<le> length p \<Longrightarrow> extname_loop (map lower_char p) n st = extname_loop p n st"
  by (induction n arbitrary: st) (simp_all add: lower_char_slash lower_char_dot)

lemma slice_map: "slice (map f p) a b = map f (slice p a b)"
  by (simp add: slice_def take_map drop_map)

lemma extname_lower: "extname (toLowerCase p) = toLowerCase (extname p)"
  by (simp add: extname_def toLowerCase_def extname_loop_lower slice_map Let_def)

lemma toLowerCase_idem: "toLowerCase (toLowerCase s) = toLowerCase s"
proof -
  have "lower_char (lower_char c) = lower_char c" for c
    by (auto simp: lower_char_def Let_def)
  then show ?thesis
    by (simp add: toLowerCase_def)
qed

lemma ext_key_lower: "ext_key (toLowerCase p) = ext_key p"
  by (simp add: ext_key_def extname_lower toLowerCase_idem)

lemma extname_loop_no_dot:
  "n \<le> length p \<Longrightarrow> dot \<notin> set p \<Longrightarrow> startDot st = - 1
     \<Longrightarrow> startDot (extname_loop p n st) = - 1"
proof (induction n arbitrary: st)
  case 0
  then show ?case by simp
next
  case (Suc n)
  then have nd: "p ! n \<noteq> dot" by (metis Suc_le_lessD nth_mem)
  show ?case using Suc nd by (simp add: extname_char_def Let_def)
qed

lemma extname_no_dot: "dot \<notin> set p \<Longrightarrow> extname p = []"
  using extname_loop_no_dot[of "length p" p extname_init]
  by (simp add: extname_def extname_init_def Let_def)

lemma extname_loop_prefix:
  "n \<le> length p \<Longrightarrow> extname_loop (p @ r) n st = extname_loop p n st"
  by (induction n arbitrary: st) (simp_all add: nth_append)

text \<open>
  The characters after the last dot or separator: the loop passes them and notes where
  the name ends.
\<close>

lemma extname_loop_tail:
  assumes "dot \<notin> set e" and "slash \<notin> set e" and "startDot st = - 1"
  shows "extname_loop (q @ e) (length q + length e) st =
           extname_loop (q @ e) (length q)
             (if e = [] \<or> endIdx st \<noteq> - 1 then st
              else st\<lparr>matchedSlash := False, endIdx := int (length q + length e)\<rparr>)"
  using assms
proof (induction e arbitrary: st rule: rev_induct)
  case Nil
  then show ?case by simp
next
  case (snoc c e)
  let ?p = "q @ e @ [c]"
  let ?i = "length q + length e"
  let ?st1 = "if endIdx st = - 1 then st\<lparr>matchedSlash := False, endIdx := int ?i + 1\<rparr> else st"
  have c: "?p ! ?i = c" by (simp add: nth_append)
  have cs: "c \<noteq> slash" "c \<noteq> dot" using snoc.prems by auto
  have step: "extname_char False (int ?i) st = ?st1"
    using snoc.prems(3) by (simp add: extname_char_def Let_def)
  have s1: "startDot ?st1 = - 1" "endIdx ?st1 \<noteq> - 1"
    using snoc.prems(3) by auto
  have "extname_loop ?p (Suc ?i) st = extname_loop ?p ?i ?st1"
    using c cs step by simp
  also have "\<dots> = extname_loop (q @ e) ?i ?st1"
    using extname_loop_prefix[of ?i "q @ e" "[c]" ?st1] by simp
  also have "\<dots> = extname_loop (q @ e) (length q) ?st1"
    using snoc.IH[of ?st1] snoc.prems s1 by simp
  also have "\<dots> = extname_loop ?p (length q) ?st1"
    using extname_loop_prefix[of "length q" "q @ e" "[c]" ?st1] by simp
  finally show ?case by (simp add: ac_simps)
qed

text \<open>Once the dot and the end are found, the rest of the loop keeps them.\<close>

lemma extname_loop_rest:
  assumes "startDot st \<noteq> - 1" and "endIdx st \<noteq> - 1"
    and "preDotState st = - 1 \<or> preDotState st = 1"
  shows "startDot (extname_loop p k st) = startDot st \<and>
         endIdx (extname_loop p k st) = endIdx st \<and>
         (preDotState (extname_loop p k st) = - 1 \<or> preDotState (extname_loop p k st) = 1)"
  using assms
proof (induction k arbitrary: st)
  case 0
  then show ?case by simp
next
  case (Suc k)
  let ?st1 = "extname_char (p ! k = dot) (int k) st"
  have "startDot ?st1 = startDot st" "endIdx ?st1 = endIdx st"
    "preDotState ?st1 = - 1 \<or> preDotState ?st1 = 1"
    using Suc.prems by (auto simp: extname_char_def Let_def)
  with Suc.IH[of ?st1] Suc.prems have
    "startDot (extname_loop p k ?st1) = startDot st \<and>
     endIdx (extname_loop p k ?st1) = endIdx st \<and>
     (preDotState (extname_loop p k ?st1) = - 1 \<or> preDotState (extname_loop p k ?st1) = 1)"
    by simp
  moreover from Suc.IH[of st] Suc.prems have
    "startDot (extname_loop p k st) = startDot st \<and>
     endIdx (extname_loop p k st) = endIdx st \<and>
     (preDotState (extname_loop p k st) = - 1 \<or> preDotState (extname_loop p k st) = 1)"
    by simp
  ultimately show ?case
    using Suc.prems by simp
qed

text \<open>
  \<^verbatim>\<open>path.extname\<close> of a name whose last dot has a character of the base name before it
  and a non-empty extension after it.
\<close>

lemma extname_extension:
  assumes "b \<noteq> slash" and "e \<noteq> []" and "dot \<notin> set e" and "slash \<notin> set e"
  shows "extname (pre @ b # dot # e) = dot # e"
proof -
  let ?p = "pre @ b # dot # e"
  let ?q = "pre @ [b, dot]"
  let ?L = "length pre"
  let ?n = "length pre + 2 + length e"
  let ?s1 = "extname_init\<lparr>matchedSlash := False, endIdx := int ?n\<rparr>"
  let ?s2 = "?s1\<lparr>startDot := int ?L + 1\<rparr>"
  let ?s3 = "extname_char (b = dot) (int ?L) ?s2"
  have p: "?p = ?q @ e" by simp
  have ds: "dot \<noteq> slash" by (simp add: dot_def slash_def)
  have "extname_loop ?p (length ?p) extname_init = extname_loop (?q @ e) (length ?q + length e) extname_init"
    by simp
  also have "\<dots> = extname_loop (?q @ e) (length ?q) ?s1"
    using extname_loop_tail[OF assms(3,4), of extname_init ?q] assms(2)
    by (simp add: extname_init_def)
  also have "\<dots> = extname_loop ?p (Suc (Suc ?L)) ?s1"
    by simp
  also have "\<dots> = extname_loop ?p (Suc ?L) ?s2"
    using ds by (simp add: nth_append extname_char_def extname_init_def Let_def ac_simps)
  also have "\<dots> = extname_loop ?p ?L ?s3"
    using assms(1) by (simp add: nth_append)
  finally have l: "extname_loop ?p (length ?p) extname_init = extname_loop ?p ?L ?s3" .
  have s3: "startDot ?s3 = int ?L + 1" "endIdx ?s3 = int ?n"
    "preDotState ?s3 = - 1 \<or> preDotState ?s3 = 1"
    by (auto simp: extname_char_def extname_init_def Let_def)
  from extname_loop_rest[of ?s3 ?p ?L] s3
  have r: "startDot (extname_loop ?p ?L ?s3) = int ?L + 1"
    "endIdx (extname_loop ?p ?L ?s3) = int ?n"
    "preDotState (extname_loop ?p ?L ?s3) = - 1 \<or> preDotState (extname_loop ?p ?L ?s3) = 1"
    by auto
  have ne: "int ?L + 1 \<noteq> int ?n - 1"
    using assms(2) by (cases e) auto
  have "extname ?p = slice ?p (int ?L + 1) (int ?n)"
    unfolding extname_def l using r ne by (auto simp: Let_def)
  also have "\<dots> = dot # e"
  proof -
    have "nat (int ?L + 1) = Suc ?L" "nat (int ?n - (int ?L + 1)) = Suc (length e)"
      by linarith+
    then show ?thesis
      by (simp add: slice_def)
  qed
  finally show ?thesis .
qed

text \<open>A base name without a dot has no extension.\<close>

lemma extname_plain:
  assumes "base \<noteq> []" and "dot \<notin> set base" and "slash \<notin> set base"
  shows "extname (pre @ slash # base) = []"
proof -
  let ?p = "pre @ slash # base"
  let ?q = "pre @ [slash]"
  let ?s1 = "extname_init\<lparr>matchedSlash := False, endIdx := int (length ?q + length base)\<rparr>"
  have "extname_loop ?p (length ?p) extname_init = extname_loop (?q @ base) (length ?q + length base) extname_init"
    by simp
  also have "\<dots> = extname_loop (?q @ base) (length ?q) ?s1"
    using extname_loop_tail[OF assms(2,3), of extname_init ?q] assms(1)
    by (simp add: extname_init_def)
  also have "\<dots> = extname_loop ?p (Suc (length pre)) ?s1"
    by simp
  also have "\<dots> = ?s1\<lparr>startPart := int (length pre) + 1\<rparr>"
    by (simp add: nth_append)
  finally have "startDot (extname_loop ?p (length ?p) extname_init) = - 1"
    by (simp add: extname_init_def)
  then show ?thesis
    by (simp add: extname_def Let_def)
qed

text \<open>A base name that starts with its only dot has no extension.\<close>

lemma extname_dotfile:
  assumes "dot \<notin> set e" and "slash \<notin> set e"
  shows "extname (dot # e) = []" and "extname (pre @ slash # dot # e) = []"
proof -
  have ds: "dot \<noteq> slash" by (simp add: dot_def slash_def)
  let ?t = "\<lambda>q. if e = [] then extname_init
                  else extname_init\<lparr>matchedSlash := False, endIdx := int (length q + length e)\<rparr>"
  have tail: "extname_loop (q @ e) (length q + length e) extname_init =
              extname_loop (q @ e) (length q) (?t q)" for q
    using extname_loop_tail[OF assms, of extname_init q] by (simp add: extname_init_def)
  have "extname_loop (dot # e) (length (dot # e)) extname_init =
        extname_loop ([dot] @ e) (length [dot] + length e) extname_init"
    by simp
  also have "\<dots> = extname_loop ([dot] @ e) (length [dot]) (?t [dot])"
    by (rule tail)
  finally have "preDotState (extname_loop (dot # e) (length (dot # e)) extname_init) = 0"
    using ds by (simp add: extname_char_def extname_init_def Let_def)
  then show "extname (dot # e) = []"
    by (simp add: extname_def Let_def)
  let ?p = "pre @ slash # dot # e"
  let ?q = "pre @ [slash, dot]"
  have "extname_loop ?p (length ?p) extname_init =
        extname_loop (?q @ e) (length ?q + length e) extname_init"
    by simp
  also have "\<dots> = extname_loop (?q @ e) (length ?q) (?t ?q)"
    by (rule tail)
  also have "\<dots> = extname_loop ?p (Suc (Suc (length pre))) (?t ?q)"
    by simp
  finally have "preDotState (extname_loop ?p (length ?p) extname_init) = 0"
    using ds by (simp add: nth_append extname_char_def extname_init_def Let_def)
  then show "extname ?p = []"
    by (simp add: extname_def Let_def)
qed

lemma lower_char_dot_eq: "lower_char dot = dot"
  by (simp add: lower_char_dot)

lemma ext_key_extension:
  assumes "b \<noteq> slash" and "e \<noteq> []" and "dot \<notin> set e" and "slash \<notin> set e"
  shows "ext_key (pre @ b # dot # e) = dot # toLowerCase e"
  using extname_extension[OF assms, of pre]
  by (simp add: ext_key_def toLowerCase_def lower_char_dot_eq Let_def)

section \<open>Facts about the statistics\<close>

lemma map_of_update_entry: "map_of (update_entry k v es) = (map_of es)(k \<mapsto> v)"
  by (induction es) (auto simp: fun_eq_iff)

lemma get_count_add_count:
  "get_count (add_count st k n) k' = (if k' = k then get_count st k + n else get_count st k')"
  by (simp add: get_count_def add_count_def map_of_update_entry)

lemma extract_entry_typeCounts:
  assumes "extract_entry extractEntry now outputDir startTime totalFiles fs st e = (fs', Inr st')"
  shows "typeCounts st' =
           (if isDirectory e then typeCounts st else add_count (typeCounts st) (ext_key (path e)) 1)"
  using assms
  by (auto simp: extract_entry_def Let_def split: if_splits sum.splits)

lemma update_entry_nth:
  "distinct (map fst es) \<Longrightarrow> i < length es \<Longrightarrow> fst (es ! i) = k
     \<Longrightarrow> update_entry k v es = es[i := (k, v)]"
proof (induction es arbitrary: i)
  case Nil
  then show ?case by simp
next
  case (Cons x es)
  obtain a b where x: "x = (a, b)" by (cases x)
  show ?case
  proof (cases i)
    case 0
    then show ?thesis using Cons.prems x by simp
  next
    case (Suc j)
    then have j: "j < length es" "fst (es ! j) = k"
      using Cons.prems by simp_all
    then have "k \<in> fst ` set es"
      by (metis image_eqI nth_mem)
    then have "a \<noteq> k"
      using Cons.prems(1) x by auto
    then show ?thesis
      using Cons.IH[of j] Cons.prems(1) j Suc x by simp
  qed
qed

lemma update_entry_absent:
  "k \<notin> fst ` set es \<Longrightarrow> update_entry k v es = es @ [(k, v)]"
  by (induction es) auto

text \<open>
  \<^verbatim>\<open>stats[ext] = (stats[ext] || 0) + n\<close> on a record: the property that is there is
  replaced where it stands, a property that is not there is added at the end.
\<close>

lemma add_count_present:
  assumes "distinct (map fst st)" and "i < length st" and "st ! i = (k, m)"
  shows "add_count st k n = st[i := (k, m + n)]"
proof -
  have "(k, m) \<in> set st"
    using assms(2,3) by (metis nth_mem)
  then have "map_of st k = Some m"
    using assms(1) by simp
  then show ?thesis
    using update_entry_nth[OF assms(1,2), of k] assms(3)
    by (simp add: add_count_def get_count_def)
qed

lemma add_count_absent:
  assumes "k \<notin> fst ` set st"
  shows "add_count st k n = st @ [(k, n)]"
proof -
  have "map_of st k = None"
    using assms by (simp add: map_of_eq_None_iff)
  then show ?thesis
    using update_entry_absent[OF assms] by (simp add: add_count_def get_count_def)
qed

lemma walk_entries_files:
  "walk_entries (map (\<lambda>(name, c). (name, File c)) fl) st =
     foldl (\<lambda>acc (name, c). add_count acc (ext_key name) 1) st fl"
  by (induction fl arbitrary: st) auto

lemma toLowerCase_lower:
  assumes "\<forall>c \<in> set s. 97 \<le> (of_char c :: nat) \<and> (of_char c :: nat) \<le> 122"
  shows "toLowerCase s = s"
  using assms by (induction s) (auto simp: toLowerCase_def lower_char_def Let_def)

section \<open>Facts about the fflate sample\<close>

text \<open>The loop of the sample, step by step.\<close>

lemma extract_files_Nil [simp]: "extract_files outputDir [] fs st = (fs, Inr st)"
  by (simp add: extract_files_def)

lemma extract_files_Cons [simp]:
  "extract_files outputDir ((filename, contents) # rest) fs st =
     (let filePath = path_join [outputDir, filename];
          fileDir = dirname filePath
      in case ensureDir fs fileDir of
           Inl e \<Rightarrow> (fs, Inl e)
         | Inr fs1 \<Rightarrow>
             (case writeFileSync fs1 filePath contents of
                Inl e \<Rightarrow> (fs1, Inl e)
              | Inr fs2 \<Rightarrow>
                  extract_files outputDir rest fs2
                    (st\<lparr>totalBytes := totalBytes st + length contents,
                        fileCount := fileCount st + 1\<rparr>)))"
  unfolding extract_files_def by (rule extract_loop.simps)

text \<open>
  The counters after the loop, whatever the file system did: the directory counter is
  untouched, every entry was counted.
\<close>

lemma extract_loop_counters:
  "extract_loop mkdirs writeFile outputDir entries fs st = (fs', Inr st') \<Longrightarrow>
     dirCount st' = dirCount st \<and>
     fileCount st' = fileCount st + length entries \<and>
     totalBytes st' = totalBytes st + sum_list (map (\<lambda>(n, c). length c) entries)"
proof (induction entries arbitrary: fs st)
  case Nil
  then show ?case by simp
next
  case (Cons x entries)
  obtain filename contents where x: "x = (filename, contents)" by (cases x)
  from Cons.prems x obtain fs2 where
    "extract_loop mkdirs writeFile outputDir entries fs2
          (st\<lparr>totalBytes := totalBytes st + length contents, fileCount := fileCount st + 1\<rparr>)
        = (fs', Inr st')"
    by (auto simp: Let_def split: sum.splits)
  from Cons.IH[OF this] x show ?case by simp
qed

lemma run_and_report_completed:
  assumes "run_and_report mkdirs writeFile typeStats now outputDir inputBytes entries fs = (fs', Completed s)"
  obtains st where
    "extract_loop mkdirs writeFile outputDir entries fs counters_init = (fs', Inr st)"
    "files s = fileCount st" "extractedSize s = totalBytes st" "directories s = dirCount st"
  using assms
  by (auto simp: run_and_report_def Let_def split: prod.splits sum.splits)

lemma normalize_trailing: "trailingSeparator q \<Longrightarrow> trailingSeparator (normalize q)"
  by (auto simp: normalize_def trailingSeparator_def Let_def slash_def)

lemma join_slash_last:
  "ps \<noteq> [] \<Longrightarrow> trailingSeparator (last ps) \<Longrightarrow> trailingSeparator (join_slash ps)"
  by (induction ps rule: join_slash.induct) (auto simp: trailingSeparator_def)

text \<open>A name that ends in a separator keeps it through \<^verbatim>\<open>path.join\<close>.\<close>

lemma path_join_trailing:
  "trailingSeparator filename \<Longrightarrow> trailingSeparator (path_join [outputDir, filename])"
proof -
  assume t: "trailingSeparator filename"
  then have ne: "filename \<noteq> []" by (simp add: trailingSeparator_def)
  have "trailingSeparator (join_slash (filter (\<lambda>a. a \<noteq> []) [outputDir, filename]))"
    using t ne by (intro join_slash_last) auto
  then show ?thesis
    using ne by (simp add: path_join_def Let_def normalize_trailing)
qed

lemma writeFileSync_not_trailing:
  "writeFileSync fs p c = Inr fs' \<Longrightarrow> \<not> trailingSeparator p"
  by (auto simp: writeFileSync_def split: if_splits option.splits node.splits)

lemma writeFileSync_journal:
  "writeFileSync fs p c = Inr fs' \<Longrightarrow> journal fs' = journal fs @ [(p, c)]"
  by (auto simp: writeFileSync_def split: if_splits option.splits node.splits sum.splits)

lemma mkdirSync_journal: "mkdirSync fs p = Inr fs' \<Longrightarrow> journal fs' = journal fs"
  by (auto simp: mkdirSync_def split: if_splits sum.splits)

lemma ensureDir_journal: "ensureDir fs p = Inr fs' \<Longrightarrow> journal fs' = journal fs"
  by (auto simp: ensureDir_def mkdirSync_journal split: if_splits)

text \<open>
  The loop, when it runs to its end: the directory counter is untouched, every entry was
  counted and written as returned, and no entry had a name ending in a separator.
\<close>

lemma extract_files_completed:
  "extract_files outputDir entries fs st = (fs', Inr st') \<Longrightarrow>
     dirCount st' = dirCount st \<and>
     fileCount st' = fileCount st + length entries \<and>
     totalBytes st' = totalBytes st + sum_list (map (\<lambda>(n, c). length c) entries) \<and>
     list_all (\<lambda>(n, c). \<not> trailingSeparator n) entries \<and>
     journal fs' = journal fs @ map (\<lambda>(n, c). (path_join [outputDir, n], c)) entries"
proof (induction entries arbitrary: fs st)
  case Nil
  then show ?case by simp
next
  case (Cons x entries)
  obtain filename contents where x: "x = (filename, contents)" by (cases x)
  from Cons.prems x obtain fs1 fs2 where
    e: "ensureDir fs (dirname (path_join [outputDir, filename])) = Inr fs1" and
    w: "writeFileSync fs1 (path_join [outputDir, filename]) contents = Inr fs2" and
    r: "extract_files outputDir entries fs2
          (st\<lparr>totalBytes := totalBytes st + length contents, fileCount := fileCount st + 1\<rparr>)
        = (fs', Inr st')"
    by (auto simp: Let_def split: sum.splits)
  have nt: "\<not> trailingSeparator filename"
    using writeFileSync_not_trailing[OF w] path_join_trailing by blast
  from Cons.IH[OF r] x nt ensureDir_journal[OF e] writeFileSync_journal[OF w]
  show ?case by simp
qed

text \<open>Making directories leaves every file as it was.\<close>

lemma mkdirp_lookup_file:
  "mkdirp n ds = Inr n' \<Longrightarrow> lookup n' ss = Some (File c) \<Longrightarrow> lookup n ss = Some (File c)"
proof (induction n ds arbitrary: n' ss rule: mkdirp.induct)
  case (4 es d ds)
  let ?m = "case map_of es d of None \<Rightarrow> Dir [] | Some n \<Rightarrow> n"
  from "4.prems"(1) obtain m' where
    m: "mkdirp ?m ds = Inr m'" and n': "n' = Dir (update_entry d m' es)"
    by (auto split: sum.splits)
  show ?case
  proof (cases ss)
    case Nil
    then show ?thesis using "4.prems"(2) n' by simp
  next
    case (Cons s ss')
    show ?thesis
    proof (cases "s = d")
      case True
      then have "lookup m' ss' = Some (File c)"
        using "4.prems"(2) n' Cons by (simp add: map_of_update_entry)
      from "4.IH"[OF m this] have l: "lookup ?m ss' = Some (File c)" .
      show ?thesis
      proof (cases "map_of es d")
        case None
        then have "lookup (Dir []) ss' = Some (File c)" using l by simp
        then show ?thesis by (cases ss') auto
      next
        case (Some x)
        then show ?thesis using l Cons True by simp
      qed
    next
      case False
      then show ?thesis
        using "4.prems"(2) n' Cons by (simp add: map_of_update_entry)
    qed
  qed
qed auto

lemma ensureDir_readFileSync:
  "ensureDir fs d = Inr fs1 \<Longrightarrow> readFileSync fs1 p = Inr c \<Longrightarrow> readFileSync fs p = Inr c"
proof -
  assume e: "ensureDir fs d = Inr fs1" and r: "readFileSync fs1 p = Inr c"
  show ?thesis
  proof (cases "existsSync fs d")
    case True
    then show ?thesis using e r by (simp add: ensureDir_def)
  next
    case False
    then obtain rt where
      m: "mkdirp (root fs) (resolve fs d) = Inr rt" and f: "fs1 = fs\<lparr>root := rt\<rparr>"
      using e by (auto simp: ensureDir_def mkdirSync_def split: if_splits sum.splits)
    have res: "resolve fs1 p = resolve fs p" using f by (simp add: resolve_def)
    from r have "lookup rt (resolve fs p) = Some (File c)" and "p \<noteq> []"
      and "\<not> trailingSeparator p"
      using f res by (auto simp: readFileSync_def split: if_splits option.splits node.splits)
    then show ?thesis
      using mkdirp_lookup_file[OF m] by (simp add: readFileSync_def)
  qed
qed

text \<open>The pieces of a completed run of \<^verbatim>\<open>extractZipFile\<close>.\<close>

lemma extractZipFile_completed:
  assumes "extractZipFile unzipSync now inputFile outputDir fs = (fs', Completed s)"
  obtains zipData entries fs1 st where
    "ensureDir fs outputDir = Inr fs1"
    "readFileSync fs inputFile = Inr zipData"
    "unzipSync zipData = Inr entries"
    "extract_files outputDir entries fs1 counters_init = (fs', Inr st)"
    "files s = fileCount st" "extractedSize s = totalBytes st" "directories s = dirCount st"
    "averageSpeed s = formatSize (bytesPerSecond (totalBytes st) (now 0) (now 1))"
    "\<exists>types. getFileTypeStats fs' outputDir = Inr types \<and> fileTypes s = sorted_file_types types"
proof -
  from assms obtain inputBytes fs1 zipData entries where
    e: "ensureDir fs outputDir = Inr fs1" and
    r: "readFileSync fs1 inputFile = Inr zipData" and
    u: "unzipSync zipData = Inr entries" and
    x: "extract_and_report now outputDir inputBytes entries fs1 = (fs', Completed s)"
    by (auto simp: extractZipFile_def split: if_splits sum.splits)
  from x obtain st where
    "extract_files outputDir entries fs1 counters_init = (fs', Inr st)"
    "files s = fileCount st" "extractedSize s = totalBytes st" "directories s = dirCount st"
    "averageSpeed s = formatSize (bytesPerSecond (totalBytes st) (now 0) (now 1))"
    "\<exists>types. getFileTypeStats fs' outputDir = Inr types \<and> fileTypes s = sorted_file_types types"
    by (auto simp: extract_and_report_def run_and_report_def extract_files_def bytesPerSecond_def
          Let_def split: prod.splits sum.splits)
  with e u ensureDir_readFileSync[OF e r] that show thesis
    by blast
qed

section \<open>Facts about the order of the file type report\<close>

lemma insert_sorted_insort:
  "insert_sorted compare_counts x ys = insort_key (\<lambda>e. - int (snd e)) x ys"
  by (induction ys) (auto simp: compare_counts_def)

lemma stable_sort_sort_key:
  "stable_sort compare_counts xs = sort_key (\<lambda>e. - int (snd e)) xs"
  by (induction xs) (simp_all add: stable_sort_def insert_sorted_insort)

section \<open>Facts about the throughput figure\<close>

lemma bytesPerSecond_cases:
  "bytesPerSecond b startTime t =
     (if t \<noteq> startTime then Finite (of_nat b * 1000 / of_int (t - startTime))
      else if b = 0 then NaN else PosInfinity)"
  by (simp add: bytesPerSecond_def elapsedSeconds_def)

lemma on_data_reported:
  assumes "startTime \<le> lastProgress tr" and "on_data startTime tr n t = (tr', Some v)"
  shows "is_finite v \<and> startTime \<le> lastProgress tr'"
  using assms by (auto simp: on_data_def Let_def bytesPerSecond_cases split: if_splits)

lemma on_data_silent:
  assumes "startTime \<le> lastProgress tr" and "on_data startTime tr n t = (tr', None)"
  shows "startTime \<le> lastProgress tr'"
  using assms by (auto simp: on_data_def Let_def split: if_splits)

lemma extract_entry_line:
  assumes "extract_entry extractEntry now outputDir startTime totalFiles fs st e = (fs', Inr st')"
    and "\<not> isDirectory e"
  shows "\<exists>n. console st' = console st @
           [Extracted (path e) n (extractedCount st') totalFiles
              (bytesPerSecond (extractedBytes st') startTime (now (clockReads st)))]"
  using assms
  by (auto simp: extract_entry_def Let_def split: if_splits sum.splits)

section \<open>Facts about the fallback chain\<close>

lemma decompress_chain_facts:
  "(case decompress_chain z outputFile d fs of (fs', r) \<Rightarrow>
      (attempted r = [Deflate] \<or> attempted r = [Deflate, RawDeflate]
         \<or> attempted r = [Deflate, RawDeflate, GzipWrapped]) \<and>
      (RawDeflate \<in> set (attempted r) \<longleftrightarrow> isl (try_strategy z fs outputFile d Deflate)) \<and>
      (GzipWrapped \<in> set (attempted r) \<longleftrightarrow>
         isl (try_strategy z fs outputFile d Deflate) \<and>
         isl (try_strategy z fs outputFile d RawDeflate)) \<and>
      (exitCode r = 0 \<longleftrightarrow> \<not> isl (try_strategy z fs outputFile d (last (attempted r)))) \<and>
      (exitCode r = 0 \<or> exitCode r = 1) \<and>
      journal fs' = journal fs @
        (case decompress z (last (attempted r)) d of
           Inl msg \<Rightarrow> []
         | Inr out \<Rightarrow> if exitCode r = 0 then [(outputFile, out)] else []))"
  by (auto simp: decompress_chain_def try_strategy_def writeFileSync_journal split: sum.splits)

lemma try_strategy_sink_ok:
  "(\<forall>c. \<not> isl (writeFileSync fs outputFile c)) \<Longrightarrow>
     isl (try_strategy z fs outputFile d s) \<longleftrightarrow> isl (decompress z s d)"
  by (auto simp: try_strategy_def split: sum.splits) (metis isl_def)

lemma extractCompressed_pipelines:
  "prefix (pipelines (extractCompressed a b)) [UnzipWithHeader, UnzipNoHeader] \<and>
   pipelines (extractCompressed a b) \<noteq> [] \<and>
   (UnzipNoHeader \<in> set (pipelines (extractCompressed a b)) \<longleftrightarrow> a = PipelineRejected)"
  by (cases a; cases b) (simp_all add: extractCompressed_def)

lemma write_node_isl: "isl (write_node n ss c) = isl (write_node n ss c')"
proof (induction n ss c arbitrary: c' rule: write_node.induct)
  case (4 es s ss c)
  show ?case
  proof (cases "map_of es s")
    case None
    then show ?thesis by simp
  next
    case (Some m)
    with "4.IH"[of m c'] show ?thesis
      by (cases "write_node m ss c"; cases "write_node m ss c'") auto
  qed
qed auto

lemma writeFileSync_isl: "isl (writeFileSync fs p c) = isl (writeFileSync fs p c')"
  using write_node_isl[of "root fs" "resolve fs p" c c']
  by (cases "write_node (root fs) (resolve fs p) c"; cases "write_node (root fs) (resolve fs p) c'")
     (auto simp: writeFileSync_def split: option.splits node.splits)

section \<open>Facts about the loops and the statistics\<close>

lemma keys_update_entry:
  "fst ` set (update_entry k v es) = insert k (fst ` set es)"
  by (simp add: dom_map_of_conv_image_fst[symmetric] map_of_update_entry)

lemma distinct_update_entry:
  "distinct (map fst es) \<Longrightarrow> distinct (map fst (update_entry k v es))"
proof (induction es)
  case Nil
  then show ?case by simp
next
  case (Cons p es)
  obtain a b where p: "p = (a, b)" by (cases p)
  have "a \<notin> fst ` set (update_entry k v es)" if "a \<noteq> k"
    using that Cons.prems p by (simp add: keys_update_entry)
  with Cons p show ?case by auto
qed

lemma distinct_add_count: "distinct (map fst st) \<Longrightarrow> distinct (map fst (add_count st k n))"
  by (simp add: add_count_def distinct_update_entry)

lemma distinct_merge_stats:
  "distinct (map fst st) \<Longrightarrow> distinct (map fst (merge_stats st sub))"
  unfolding merge_stats_def
  by (induction sub arbitrary: st) (auto simp: distinct_add_count)

lemma distinct_walk_entries:
  "distinct (map fst st) \<Longrightarrow> distinct (map fst (walk_entries es st))"
  by (induction es st rule: walk_entries.induct) (auto simp: distinct_add_count distinct_merge_stats)

lemma get_count_merge_stats:
  "get_count (merge_stats st sub) k = get_count st k + sum_list (map snd (filter (\<lambda>p. fst p = k) sub))"
  unfolding merge_stats_def
  by (induction sub arbitrary: st) (auto simp: get_count_add_count)

lemma get_count_distinct:
  "distinct (map fst sub) \<Longrightarrow> sum_list (map snd (filter (\<lambda>p. fst p = k) sub)) = get_count sub k"
proof (induction sub)
  case Nil
  then show ?case by (simp add: get_count_def)
next
  case (Cons p sub)
  obtain a b where p: "p = (a, b)" by (cases p)
  show ?case
  proof (cases "a = k")
    case True
    then have "k \<notin> fst ` set sub" using Cons.prems p by simp
    then have "filter (\<lambda>p. fst p = k) sub = []"
      by (auto simp: filter_empty_conv)
    then show ?thesis using True p by (simp add: get_count_def)
  next
    case False
    then show ?thesis using Cons p by (simp add: get_count_def)
  qed
qed

lemma get_count_walk_entries:
  "get_count (walk_entries es st) k = get_count st k + count_files k es"
proof (induction es st rule: walk_entries.induct)
  case (3 name es rest st)
  have "get_count (walk_entries es []) k = count_files k es"
    using "3.IH"(1) by (simp add: get_count_def)
  moreover have "distinct (map fst (walk_entries es []))"
    by (rule distinct_walk_entries) simp
  ultimately show ?case
    using "3.IH"(2) by (simp add: get_count_merge_stats get_count_distinct)
qed (auto simp: get_count_add_count)

lemma extract_entry_ok:
  assumes "extract_entry extractEntry now outputDir startTime totalFiles fs st e = (fs1, Inr st1)"
  shows "extractedCount st1 = extractedCount st + 1 \<and>
         (if isDirectory e then console st1 = console st \<and> typeCounts st1 = typeCounts st
          else (\<exists>l. console st1 = console st @ [l] \<and> line_path l = path e \<and> \<not> is_error_line l)
               \<and> typeCounts st1 = add_count (typeCounts st) (ext_key (path e)) 1)"
  using assms
  by (auto simp: extract_entry_def Let_def split: if_splits sum.splits)

lemma extract_entry_failed:
  assumes "extract_entry extractEntry now outputDir startTime totalFiles fs st e = (fs1, Inl err)"
  shows "\<not> isDirectory e"
  using assms
  by (auto simp: extract_entry_def Let_def split: if_splits sum.splits)

lemma extract_entries_facts:
  "extract_entries extractEntry now outputDir startTime totalFiles entries fs st = (fs', st') \<Longrightarrow>
     \<exists>new. console st' = console st @ new \<and>
       map line_path new = map path (filter (\<lambda>e. \<not> isDirectory e) entries) \<and>
       (\<forall>k. get_count (typeCounts st') k = get_count (typeCounts st) k + extracted_with k new)"
proof (induction entries arbitrary: fs st)
  case Nil
  then show ?case by (simp add: extracted_with_def)
next
  case (Cons e es)
  obtain fs1 r where step: "extract_entry extractEntry now outputDir startTime totalFiles fs st e = (fs1, r)"
    by (cases "extract_entry extractEntry now outputDir startTime totalFiles fs st e")
  show ?case
  proof (cases r)
    case (Inl err)
    let ?st1 = "st\<lparr>console := console st @ [ErrorExtracting (path e) err]\<rparr>"
    from Cons.prems step Inl
    have "extract_entries extractEntry now outputDir startTime totalFiles es fs1 ?st1 = (fs', st')"
      by simp
    from Cons.IH[OF this] obtain new where
      n: "console st' = console ?st1 @ new"
         "map line_path new = map path (filter (\<lambda>e. \<not> isDirectory e) es)"
         "\<forall>k. get_count (typeCounts st') k = get_count (typeCounts ?st1) k + extracted_with k new"
      by blast
    have nd: "\<not> isDirectory e" using extract_entry_failed step Inl by blast
    show ?thesis
      using n nd
      by (intro exI[of _ "ErrorExtracting (path e) err # new"]) (simp add: extracted_with_def)
  next
    case (Inr st1)
    from Cons.prems step Inr
    have "extract_entries extractEntry now outputDir startTime totalFiles es fs1 st1 = (fs', st')"
      by simp
    from Cons.IH[OF this] obtain new where
      n: "console st' = console st1 @ new"
         "map line_path new = map path (filter (\<lambda>e. \<not> isDirectory e) es)"
         "\<forall>k. get_count (typeCounts st') k = get_count (typeCounts st1) k + extracted_with k new"
      by blast
    note ok = extract_entry_ok[OF step[unfolded Inr]]
    show ?thesis
    proof (cases "isDirectory e")
      case True
      then show ?thesis using n ok by auto
    next
      case False
      with ok obtain l where l: "console st1 = console st @ [l]" "line_path l = path e" "\<not> is_error_line l"
        and t: "typeCounts st1 = add_count (typeCounts st) (ext_key (path e)) 1"
        by auto
      show ?thesis
        using n l t False
        by (intro exI[of _ "l # new"]) (simp add: extracted_with_def get_count_add_count)
    qed
  qed
qed

lemma values_update_entry: "snd ` set (update_entry k v es) \<subseteq> insert v (snd ` set es)"
  by (induction es) (force split: if_splits)+

lemma positive_add_count:
  "0 \<notin> snd ` set st \<Longrightarrow> 0 < n \<Longrightarrow> 0 \<notin> snd ` set (add_count st k n)"
  using values_update_entry[of k "get_count st k + n" st]
  by (auto simp: add_count_def)

lemma positive_merge_stats:
  "0 \<notin> snd ` set st \<Longrightarrow> 0 \<notin> snd ` set sub \<Longrightarrow> 0 \<notin> snd ` set (merge_stats st sub)"
  unfolding merge_stats_def
proof (induction sub arbitrary: st)
  case Nil
  then show ?case by simp
next
  case (Cons x sub)
  obtain ext count where x: "x = (ext, count)" by (cases x)
  have "0 < count" using Cons.prems(2) x by auto
  from positive_add_count[OF Cons.prems(1) this]
  have "0 \<notin> snd ` set (add_count st ext count)" .
  from Cons.IH[OF this] Cons.prems(2) x show ?case by simp
qed

lemma positive_walk_entries:
  "0 \<notin> snd ` set st \<Longrightarrow> 0 \<notin> snd ` set (walk_entries es st)"
proof (induction es st rule: walk_entries.induct)
  case (1 st)
  then show ?case by simp
next
  case (2 name c rest st)
  from positive_add_count[OF "2.prems", of 1 "ext_key name"] "2.IH" show ?case by simp
next
  case (3 name es rest st)
  have "0 \<notin> snd ` set (walk_entries es [])"
    using "3.IH"(1) by simp
  from positive_merge_stats[OF "3.prems" this] "3.IH"(2) show ?case by simp
qed

text \<open>
  A record with one property per key and no count of zero is the function its counts
  are: a key is there exactly when its count is positive.
\<close>

lemma record_as_map:
  assumes "distinct (map fst st)" and "0 \<notin> snd ` set st" and "\<And>k. get_count st k = cnt k"
  shows "map_of st k = (if cnt k = 0 then None else Some (cnt k))"
proof (cases "map_of st k")
  case None
  then show ?thesis using assms(3)[of k] by (simp add: get_count_def)
next
  case (Some n)
  then have "(k, n) \<in> set st" by (rule map_of_SomeD)
  then have "n \<noteq> 0" using assms(2) by force
  then show ?thesis using Some assms(3)[of k] by (simp add: get_count_def)
qed

text \<open>Sorting the record keeps its properties.\<close>

lemma distinct_keys_insort:
  "distinct (map fst (insort_key f x xs)) \<longleftrightarrow> fst x \<notin> fst ` set xs \<and> distinct (map fst xs)"
  by (induction xs) (auto simp: set_insort_key)

lemma distinct_keys_sort: "distinct (map fst (sort_key f xs)) \<longleftrightarrow> distinct (map fst xs)"
  by (induction xs) (auto simp: distinct_keys_insort)

lemma sorted_file_types_distinct:
  "distinct (map fst st) \<Longrightarrow> distinct (map fst (sorted_file_types st))"
  by (simp add: sorted_file_types_def stable_sort_sort_key distinct_keys_sort)

lemma sorted_file_types_map_of:
  assumes "distinct (map fst st)"
  shows "map_of (sorted_file_types st) = map_of st"
proof -
  have "set (sorted_file_types st) = set st"
    by (simp add: sorted_file_types_def stable_sort_sort_key)
  then show ?thesis
    using map_of_inject_set[OF sorted_file_types_distinct[OF assms] assms] by simp
qed

lemma extract_entries_record:
  "extract_entries extractEntry now outputDir startTime totalFiles entries fs st = (fs', st') \<Longrightarrow>
     distinct (map fst (typeCounts st)) \<Longrightarrow> 0 \<notin> snd ` set (typeCounts st) \<Longrightarrow>
     distinct (map fst (typeCounts st')) \<and> 0 \<notin> snd ` set (typeCounts st')"
proof (induction entries arbitrary: fs st)
  case Nil
  then show ?case by simp
next
  case (Cons e es)
  obtain fs1 r where step: "extract_entry extractEntry now outputDir startTime totalFiles fs st e = (fs1, r)"
    by (cases "extract_entry extractEntry now outputDir startTime totalFiles fs st e")
  show ?case
  proof (cases r)
    case (Inl err)
    let ?st1 = "st\<lparr>console := console st @ [ErrorExtracting (path e) err]\<rparr>"
    from Cons.prems(1) step Inl
    have "extract_entries extractEntry now outputDir startTime totalFiles es fs1 ?st1 = (fs', st')"
      by simp
    from Cons.IH[OF this] Cons.prems(2,3) show ?thesis by simp
  next
    case (Inr st1)
    from Cons.prems(1) step Inr
    have l: "extract_entries extractEntry now outputDir startTime totalFiles es fs1 st1 = (fs', st')"
      by simp
    from extract_entry_typeCounts[OF step[unfolded Inr]]
    have "typeCounts st1 = typeCounts st \<or>
          typeCounts st1 = add_count (typeCounts st) (ext_key (path e)) 1"
      by (simp split: if_splits)
    then have "distinct (map fst (typeCounts st1))" "0 \<notin> snd ` set (typeCounts st1)"
      using Cons.prems(2,3) distinct_add_count[OF Cons.prems(2), of "ext_key (path e)" 1]
        positive_add_count[OF Cons.prems(3), of 1 "ext_key (path e)"]
      by auto
    from Cons.IH[OF l this] show ?thesis .
  qed
qed

lemma extractZip_completed:
  assumes "extractZip openArchive extractEntry now inputFile outputDir fs = (fs', Completed rep)"
  obtains zipData entries fs1 st where
    "openArchive zipData = Inr entries"
    "extract_entries extractEntry now outputDir (now 0) (length entries) entries fs1
       progress_init = (fs', st)"
    "printed rep = console st" "typesExtracted rep = sorted_file_types (typeCounts st)"
  using assms
  by (auto simp: extractZip_def Let_def split: if_splits sum.splits prod.splits)

lemma extractZip_opened:
  assumes "existsSync fs inputFile"
    and "(if \<not> existsSync fs outputDir then mkdirSync fs outputDir else Inr fs) = Inr fs1"
    and "readFileSync fs1 inputFile = Inr zipData"
    and "openArchive zipData = Inr entries"
  shows "\<exists>rep. snd (extractZip openArchive extractEntry now inputFile outputDir fs) = Completed rep"
  using assms
  by (auto simp: extractZip_def Let_def split: if_splits sum.splits prod.splits)

lemma extract_files_stops:
  assumes "extract_files outputDir [x] fs st = (fs1, Inl e)"
  shows "extract_files outputDir (x # rest) fs st = (fs1, Inl e)"
  using assms
  by (cases x) (auto simp: Let_def split: sum.splits)

section \<open>Facts about where \<^verbatim>\<open>path.join\<close> puts an entry\<close>

lemma segments_append_slash: "segments (a @ slash # b) = segments a @ segments b"
proof (induction a)
  case Nil
  then show ?case by simp
next
  case (Cons c a)
  obtain s ss where s: "segments a = s # ss"
    using segments_nonempty[of a] by (cases "segments a") auto
  with Cons show ?case by simp
qed

lemma segments_slash_free: "s \<in> set (segments p) \<Longrightarrow> slash \<notin> set s"
proof (induction p arbitrary: s)
  case Nil
  then show ?case by simp
next
  case (Cons c p)
  obtain t ts where t: "segments p = t # ts"
    using segments_nonempty[of p] by (cases "segments p") auto
  with Cons show ?case by (auto split: if_splits)
qed

lemma segments_single: "slash \<notin> set s \<Longrightarrow> segments s = [s]"
  by (induction s) auto

lemma segments_join_slash:
  "ss \<noteq> [] \<Longrightarrow> \<forall>s \<in> set ss. slash \<notin> set s \<Longrightarrow> segments (join_slash ss) = ss"
  by (induction ss rule: join_slash.induct) (simp_all add: segments_single segments_append_slash)

lemma step_skip: "skipped seg \<Longrightarrow> normalize_segment a res seg = res"
  by (auto simp: normalize_segment_def skipped_def)

lemma step_regular: "regular seg \<Longrightarrow> normalize_segment a res seg = seg # res"
  by (auto simp: normalize_segment_def regular_def)

lemma step_pop: "r \<noteq> ''..'' \<Longrightarrow> normalize_segment a (r # rs) ''..'' = rs"
  by (auto simp: normalize_segment_def)

lemma step_up_empty: "normalize_segment a [] ''..'' = (if a then [''..''] else [])"
  by (auto simp: normalize_segment_def)

lemma step_up_again: "normalize_segment True (''..'' # rs) ''..'' = ''..'' # ''..'' # rs"
  by (auto simp: normalize_segment_def)

lemma segment_cases:
  obtains (skip) "skipped x" | (up) "x = ''..''" | (reg) "regular x"
  by (auto simp: regular_def skipped_def)

lemma step_kept:
  assumes "\<forall>r \<in> set res. \<not> skipped r"
  shows "\<forall>r \<in> set (normalize_segment a res seg). \<not> skipped r"
  using assms by (auto simp: normalize_segment_def skipped_def split: list.splits)

lemma fold_kept:
  assumes "\<forall>r \<in> set res. \<not> skipped r"
  shows "\<forall>r \<in> set (foldl (normalize_segment a) res segs). \<not> skipped r"
  using assms
proof (induction segs arbitrary: res)
  case Nil
  then show ?case by simp
next
  case (Cons x segs)
  have "\<forall>r \<in> set (normalize_segment a res x). \<not> skipped r"
    using Cons.prems by (rule step_kept)
  from Cons.IH[OF this] show ?case by simp
qed

lemma step_no_dotdot:
  assumes "\<forall>r \<in> set res. r \<noteq> ''..''"
  shows "\<forall>r \<in> set (normalize_segment False res seg). r \<noteq> ''..''"
  using assms by (auto simp: normalize_segment_def split: list.splits)

lemma fold_no_dotdot:
  assumes "\<forall>r \<in> set res. r \<noteq> ''..''"
  shows "\<forall>r \<in> set (foldl (normalize_segment False) res segs). r \<noteq> ''..''"
  using assms
proof (induction segs arbitrary: res)
  case Nil
  then show ?case by simp
next
  case (Cons x segs)
  have "\<forall>r \<in> set (normalize_segment False res x). r \<noteq> ''..''"
    using Cons.prems by (rule step_no_dotdot)
  from Cons.IH[OF this] show ?case by simp
qed

lemma step_slash_free:
  assumes "\<forall>r \<in> set res. slash \<notin> set r" and "slash \<notin> set seg"
  shows "\<forall>r \<in> set (normalize_segment a res seg). slash \<notin> set r"
  using assms by (auto simp: normalize_segment_def slash_def split: list.splits)

lemma fold_slash_free:
  assumes "\<forall>r \<in> set res. slash \<notin> set r" and "\<forall>s \<in> set segs. slash \<notin> set s"
  shows "\<forall>r \<in> set (foldl (normalize_segment a) res segs). slash \<notin> set r"
  using assms
proof (induction segs arbitrary: res)
  case Nil
  then show ?case by simp
next
  case (Cons x segs)
  have "\<forall>r \<in> set (normalize_segment a res x). slash \<notin> set r"
    using Cons.prems by (intro step_slash_free) auto
  from Cons.IH[OF this] Cons.prems(2) show ?case by simp
qed

text \<open>Replaying regular segments pushes them.\<close>

lemma fold_regular:
  "\<forall>s \<in> set xs. regular s \<Longrightarrow> foldl (normalize_segment a) res xs = rev xs @ res"
  by (induction xs arbitrary: res) (simp_all add: step_regular)

text \<open>Resolving what normalization kept is resolving the original segments.\<close>

lemma replay_relative:
  "foldl (normalize_segment False) res (rev (foldl (normalize_segment True) [] segs))
     = foldl (normalize_segment False) res segs"
proof (induction segs rule: rev_induct)
  case Nil
  then show ?case by simp
next
  case (snoc x segs)
  let ?T = "foldl (normalize_segment True) [] segs"
  have kept: "\<forall>r \<in> set ?T. \<not> skipped r"
    by (rule fold_kept) simp
  show ?case
  proof (cases x rule: segment_cases)
    case skip
    then show ?thesis using snoc by (simp add: step_skip)
  next
    case reg
    then show ?thesis using snoc by (simp add: step_regular)
  next
    case up
    show ?thesis
    proof (cases ?T)
      case Nil
      then show ?thesis using snoc up by (simp add: step_up_empty)
    next
      case (Cons r rs)
      show ?thesis
      proof (cases "r = ''..''")
        case True
        then show ?thesis using snoc up Cons by (simp add: step_up_again)
      next
        case False
        then have reg: "regular r" using kept Cons by (auto simp: regular_def skipped_def)
        have "foldl (normalize_segment False) res segs
                = r # foldl (normalize_segment False) res (rev rs)"
          using snoc Cons reg by (simp add: step_regular)
        then show ?thesis using Cons up False by (simp add: step_pop)
      qed
    qed
  qed
qed

lemma replay_absolute:
  "foldl (normalize_segment False) [] (rev (foldl (normalize_segment False) [] segs))
     = foldl (normalize_segment False) [] segs"
proof -
  let ?T = "foldl (normalize_segment False) [] segs"
  have "\<forall>r \<in> set ?T. \<not> skipped r" by (rule fold_kept) simp
  moreover have "\<forall>r \<in> set ?T. r \<noteq> ''..''" by (rule fold_no_dotdot) simp
  ultimately have "\<forall>s \<in> set (rev ?T). regular s" by (auto simp: regular_def skipped_def)
  from fold_regular[OF this] show ?thesis by simp
qed

lemma normalizeSegments_kept:
  "\<forall>r \<in> set (normalizeSegments a (segments q)). \<not> skipped r \<and> slash \<notin> set r"
proof -
  have "\<forall>r \<in> set (foldl (normalize_segment a) [] (segments q)). \<not> skipped r"
    by (rule fold_kept) simp
  moreover have "\<forall>r \<in> set (foldl (normalize_segment a) [] (segments q)). slash \<notin> set r"
    by (rule fold_slash_free) (auto dest: segments_slash_free)
  ultimately show ?thesis
    by (simp add: normalizeSegments_def)
qed

lemma join_slash_hd: "ss \<noteq> [] \<Longrightarrow> hd ss \<noteq> [] \<Longrightarrow> join_slash ss \<noteq> [] \<and> hd (join_slash ss) = hd (hd ss)"
  by (induction ss rule: join_slash.induct) auto

lemma join_slash_empty: "\<forall>r \<in> set ss. r \<noteq> [] \<Longrightarrow> join_slash ss = [] \<longleftrightarrow> ss = []"
  by (induction ss rule: join_slash.induct) auto

lemma step_empty: "normalize_segment a res [] = res"
  by (simp add: step_skip skipped_def)

lemma segments_normalize:
  assumes "q \<noteq> []"
  shows "foldl (normalize_segment a) res (segments (normalize q))
           = foldl (normalize_segment a) res (normalizeSegments (\<not> isAbsolute q) (segments q))"
proof -
  let ?N = "normalizeSegments (\<not> isAbsolute q) (segments q)"
  have kept: "\<forall>r \<in> set ?N. \<not> skipped r \<and> slash \<notin> set r"
    by (rule normalizeSegments_kept)
  then have ne: "\<forall>r \<in> set ?N. r \<noteq> []"
    by (auto simp: skipped_def)
  show ?thesis
  proof (cases "?N = []")
    case True
    then have "normalize q = ''/'' \<or> normalize q = ''./'' \<or> normalize q = ''.''"
      using assms by (auto simp: normalize_def normalizeString_def Let_def)
    then show ?thesis
      using True by (auto simp: slash_def step_skip skipped_def)
  next
    case False
    then have s: "join_slash ?N \<noteq> []"
      using join_slash_empty[OF ne] by simp
    have seg: "segments (join_slash ?N) = ?N"
      using False kept by (intro segments_join_slash) auto
    have trail: "segments (join_slash ?N @ ''/'') = ?N @ [[]]"
      using segments_append_slash[of "join_slash ?N" "[]"] seg by (simp add: slash_def)
    show ?thesis
      using assms s seg trail
      by (auto simp: normalize_def normalizeString_def Let_def step_empty)
  qed
qed

lemma isAbsolute_normalize:
  assumes "q \<noteq> []"
  shows "isAbsolute (normalize q) = isAbsolute q"
proof -
  let ?N = "normalizeSegments (\<not> isAbsolute q) (segments q)"
  have kept: "\<forall>r \<in> set ?N. \<not> skipped r \<and> slash \<notin> set r"
    by (rule normalizeSegments_kept)
  show ?thesis
  proof (cases "?N = []")
    case True
    then show ?thesis
      using assms by (auto simp: normalize_def normalizeString_def Let_def isAbsolute_def slash_def)
  next
    case False
    then have h: "hd ?N \<noteq> []" "slash \<notin> set (hd ?N)"
      using kept by (auto simp: skipped_def)
    have "hd (hd ?N) \<in> set (hd ?N)"
      using h(1) by (rule hd_in_set)
    with h(2) have "hd (hd ?N) \<noteq> slash"
      by auto
    with join_slash_hd[OF False h(1)]
    have "join_slash ?N \<noteq> []" "hd (join_slash ?N) \<noteq> slash"
      by simp_all
    then show ?thesis
      using assms
      by (auto simp: normalize_def normalizeString_def Let_def isAbsolute_def)
  qed
qed

lemma resolve_normalize:
  assumes "q \<noteq> []"
  shows "resolve fs (normalize q) = resolve fs q"
proof -
  let ?F = "normalize_segment False"
  let ?C = "if isAbsolute q then [] else cwd fs"
  have "foldl ?F (foldl ?F [] ?C) (segments (normalize q))
          = foldl ?F (foldl ?F [] ?C) (segments q)"
  proof (cases "isAbsolute q")
    case True
    then show ?thesis
      using segments_normalize[OF assms, of False "[]"] replay_absolute[of "segments q"]
      by (simp add: normalizeSegments_def)
  next
    case False
    then show ?thesis
      using segments_normalize[OF assms, of False "foldl ?F [] (cwd fs)"]
        replay_relative[of "foldl ?F [] (cwd fs)" "segments q"]
      by (simp add: normalizeSegments_def)
  qed
  then show ?thesis
    by (simp add: resolve_def normalizeSegments_def isAbsolute_normalize[OF assms])
qed

lemma fold_grows:
  assumes "''..'' \<notin> set segs"
  shows "\<exists>pre. foldl (normalize_segment a) res segs = pre @ res"
  using assms
proof (induction segs arbitrary: res)
  case Nil
  then show ?case by simp
next
  case (Cons x segs)
  then have x: "x \<noteq> ''..''" by auto
  have "normalize_segment a res x = res \<or> normalize_segment a res x = x # res"
    using x by (cases x rule: segment_cases) (auto simp: step_skip step_regular)
  moreover from Cons obtain pre where
    "foldl (normalize_segment a) (normalize_segment a res x) segs = pre @ normalize_segment a res x"
    by fastforce
  ultimately show ?case by auto
qed

lemma path_join_under:
  assumes "outputDir \<noteq> []" and "''..'' \<notin> set (segments filename)"
  shows "under fs outputDir (path_join [outputDir, filename])"
proof (cases "filename = []")
  case True
  then show ?thesis
    using assms(1) by (simp add: path_join_def under_def resolve_normalize)
next
  case False
  let ?J = "outputDir @ slash # filename"
  let ?F = "normalize_segment False"
  let ?C = "if isAbsolute outputDir then [] else cwd fs"
  have j: "path_join [outputDir, filename] = normalize ?J"
    using assms(1) False by (simp add: path_join_def)
  have a: "isAbsolute ?J = isAbsolute outputDir"
    using assms(1) by (simp add: isAbsolute_def)
  have "resolve fs ?J = rev (foldl ?F (foldl ?F [] (?C @ segments outputDir)) (segments filename))"
    by (simp add: resolve_def normalizeSegments_def a segments_append_slash)
  moreover obtain pre where
    "foldl ?F (foldl ?F [] (?C @ segments outputDir)) (segments filename)
       = pre @ foldl ?F [] (?C @ segments outputDir)"
    using fold_grows[OF assms(2)] by blast
  ultimately have "resolve fs ?J = resolve fs outputDir @ rev pre"
    by (simp add: resolve_def normalizeSegments_def)
  then show ?thesis
    by (simp add: under_def j resolve_normalize)
qed

lemma write_node_lookup: "write_node n ss c = Inr n' \<Longrightarrow> lookup n' ss = Some (File c)"
proof (induction n ss c arbitrary: n' rule: write_node.induct)
  case (4 es s ss c)
  then show ?case
    by (auto simp: map_of_update_entry split: option.splits if_splits sum.splits)
qed auto

lemma writeFileSync_lookup:
  "writeFileSync fs p c = Inr fs' \<Longrightarrow> lookup (root fs') (resolve fs p) = Some (File c)"
  by (auto simp: writeFileSync_def write_node_lookup split: if_splits option.splits node.splits sum.splits)

lemma extract_entry_written:
  assumes "extract_entry extractEntry now outputDir startTime totalFiles fs st e = (fs1, Inr st1)"
    and "\<not> isDirectory e"
  shows "\<exists>content. extractEntry e = Inr content \<and>
           journal fs1 = journal fs @ [(path_join [outputDir, path e], content)] \<and>
           extractedBytes st1 = extractedBytes st + length content"
  using assms
  by (auto simp: extract_entry_def Let_def mkdirSync_journal writeFileSync_journal
           split: if_splits sum.splits)

lemma extract_entry_reason:
  assumes "extract_entry extractEntry now outputDir startTime totalFiles fs st e = (fs1, Inl err)"
  shows "(\<exists>m. err = LibraryError m \<and> extractEntry e = Inl m) \<or> (\<exists>fe. err = FsError fe)"
  using assms
  by (auto simp: extract_entry_def Let_def split: if_splits sum.splits)

lemma try_strategy_written:
  assumes "try_strategy z fs outputFile d strat = Inr fs1"
  shows "\<exists>out. decompress z strat d = Inr out \<and> journal fs1 = journal fs @ [(outputFile, out)]"
  using assms
  by (auto simp: try_strategy_def writeFileSync_journal split: sum.splits)

section \<open>Facts about the walk of the output directory\<close>

lemma lookup_append:
  "lookup n (xs @ ys) = (case lookup n xs of None \<Rightarrow> None | Some m \<Rightarrow> lookup m ys)"
proof (induction n xs rule: lookup.induct)
  case (1 n)
  then show ?case by simp
next
  case (2 c s ss)
  then show ?case by simp
next
  case (3 es s ss)
  then show ?case by (cases "map_of es s") simp_all
qed

lemma resolve_child:
  assumes "dirPath \<noteq> []" and "regular name" and "slash \<notin> set name"
  shows "resolve fs (path_join [dirPath, name]) = resolve fs dirPath @ [name]"
proof -
  let ?J = "dirPath @ slash # name"
  let ?F = "normalize_segment False"
  let ?C = "if isAbsolute dirPath then [] else cwd fs"
  have ne: "name \<noteq> []"
    using assms(2) by (simp add: regular_def)
  then have j: "path_join [dirPath, name] = normalize ?J"
    using assms(1) by (simp add: path_join_def)
  have a: "isAbsolute ?J = isAbsolute dirPath"
    using assms(1) by (simp add: isAbsolute_def)
  have "resolve fs ?J = rev (foldl ?F (foldl ?F [] (?C @ segments dirPath)) [name])"
    using assms(3) by (simp add: resolve_def normalizeSegments_def a segments_append_slash segments_single)
  then have "resolve fs ?J = resolve fs dirPath @ [name]"
    using assms(2) by (simp add: resolve_def normalizeSegments_def step_regular)
  then show ?thesis
    by (simp add: j resolve_normalize)
qed

text \<open>
  The recursive call of \<^verbatim>\<open>getFileTypeStats\<close> reads the entry's own subtree: for a
  directory entry that \<^verbatim>\<open>readdir\<close> lists under a proper name, reading the joined path
  gives the entries of that directory.
\<close>

lemma readdir_child:
  assumes "readdir fs dirPath = Inr entries" and "map_of entries name = Some (Dir sub)"
    and "regular name" and "slash \<notin> set name"
  shows "readdir fs (path_join [dirPath, name]) = Inr sub"
proof -
  from assms(1) have d: "dirPath \<noteq> []" and l: "lookup (root fs) (resolve fs dirPath) = Some (Dir entries)"
    by (auto simp: readdir_def split: if_splits option.splits node.splits)
  have "lookup (root fs) (resolve fs dirPath @ [name]) = Some (Dir sub)"
    using l assms(2) by (simp add: lookup_append)
  moreover have "path_join [dirPath, name] \<noteq> []"
    using d by (auto simp: path_join_def normalize_def Let_def)
  ultimately show ?thesis
    by (simp add: readdir_def resolve_child[OF d assms(3,4)])
qed

section \<open>Runs that return, throw or complete\<close>

lemma returned_run: "returned (snd x) \<noteq> None \<Longrightarrow> x = (fst x, Inr (the (returned (snd x))))"
  by (cases x; cases "snd x") (auto simp: returned_def)

lemma thrown_run: "thrown (snd x) \<noteq> None \<Longrightarrow> x = (fst x, Inl (the (thrown (snd x))))"
  by (cases x; cases "snd x") (auto simp: thrown_def)

lemma returned_value: "returned r \<noteq> None \<Longrightarrow> r = Inr (the (returned r))"
  by (cases r) (auto simp: returned_def)

lemma completed_the:
  "completed (snd x) \<noteq> None \<Longrightarrow> x = (fst x, Completed (the (completed (snd x))))"
  by (cases x; cases "snd x") (auto simp: completed_def)

section \<open>The claims\<close>

text \<open>
  C1, as the code has it.  No sample looks at an entry's path before it writes: the
  fflate sample writes every entry it is given at \<^verbatim>\<open>path.join(outputDir, filename)\<close>,
  and the file is then at the location this path resolves to.  A name without a
  \<^verbatim>\<open>..\<close> segment, a rooted one such as \<^verbatim>\<open>/etc/passwd\<close> included, resolves to a
  location under the output directory.  (A name with \<^verbatim>\<open>..\<close> segments is written just
  the same, wherever the joined path leads.)
\<close>

theorem output_paths:
  "(outputDir \<noteq> [] \<and> ''..'' \<notin> set (segments filename) \<longrightarrow>
      under fs outputDir (path_join [outputDir, filename])) \<and>
   (extract_files outputDir entries fs st = (fs', Inr st') \<longrightarrow>
      map fst (journal fs') =
        map fst (journal fs) @ map (\<lambda>(n, c). path_join [outputDir, n]) entries) \<and>
   (writeFileSync fs p c = Inr fs1 \<longrightarrow>
      lookup (root fs1) (resolve fs p) = Some (File c) \<and> journal fs1 = journal fs @ [(p, c)])"
proof -
  have "map fst (journal fs') =
          map fst (journal fs) @ map (\<lambda>(n, c). path_join [outputDir, n]) entries"
    if "extract_files outputDir entries fs st = (fs', Inr st')"
    using extract_files_completed[OF that] by (simp add: case_prod_unfold comp_def)
  then show ?thesis
    using path_join_under[of outputDir filename fs] writeFileSync_lookup[of fs p c fs1]
      writeFileSync_journal[of fs p c fs1]
    by simp
qed

theorem output_paths_witness:
  "''out'' \<noteq> [] \<and> ''..'' \<notin> set (segments ''/etc/passwd'') \<and>
   path_join [''out'', ''/etc/passwd''] = ''out/etc/passwd'' \<and>
   under example_fs ''out'' (path_join [''out'', ''/etc/passwd'']) \<and>
   returned (snd (extract_files ''out'' rooted_entry example_fs counters_init)) \<noteq> None \<and>
   map fst (journal (fst (extract_files ''out'' rooted_entry example_fs counters_init)))
     = [''out/etc/passwd''] \<and>
   returned (writeFileSync example_fs ''out/new.txt'' [1]) \<noteq> None \<and>
   resolve example_fs ''out/new.txt'' = [''tmp'', ''out'', ''new.txt''] \<and>
   lookup (root (the (returned (writeFileSync example_fs ''out/new.txt'' [1]))))
     [''tmp'', ''out'', ''new.txt''] = Some (File [1]) \<and>
   lookup (root (fst (extractZipFile (\<lambda>d. Inr rooted_entry) example_clock ''in.zip'' ''out''
                        example_fs)))
     [''tmp'', ''out'', ''etc'', ''passwd''] = Some (File [6, 6, 6])"
proof -
  let ?l = "extract_files ''out'' rooted_entry example_fs counters_init"
  let ?w = "writeFileSync example_fs ''out/new.txt'' [1]"
  have a: "''out'' \<noteq> []"
    by simp
  have b: "''..'' \<notin> set (segments ''/etc/passwd'')"
    by code_simp
  from output_paths[where outputDir = "''out''" and filename = "''/etc/passwd''"
      and fs = example_fs, THEN conjunct1] a b
  have u: "under example_fs ''out'' (path_join [''out'', ''/etc/passwd''])"
    by simp
  have j: "path_join [''out'', ''/etc/passwd''] = ''out/etc/passwd''"
    by code_simp
  have l: "returned (snd ?l) \<noteq> None"
    by code_simp
  from output_paths[where outputDir = "''out''" and entries = rooted_entry and fs = example_fs
      and st = counters_init and fs' = "fst ?l" and st' = "the (returned (snd ?l))",
      THEN conjunct2, THEN conjunct1]
    returned_run[OF l]
  have "map fst (journal (fst ?l))
          = map fst (journal example_fs) @ map (\<lambda>(n, c). path_join [''out'', n]) rooted_entry"
    by (elim impE) assumption+
  moreover have "map fst (journal example_fs) @ map (\<lambda>(n, c). path_join [''out'', n]) rooted_entry
                   = [''out/etc/passwd'']"
    by code_simp
  ultimately have m: "map fst (journal (fst ?l)) = [''out/etc/passwd'']"
    by simp
  have w: "returned ?w \<noteq> None"
    by code_simp
  have rs: "resolve example_fs ''out/new.txt'' = [''tmp'', ''out'', ''new.txt'']"
    by code_simp
  from output_paths[where fs = example_fs and p = "''out/new.txt''" and c = "[1]"
      and ?fs1.0 = "the (returned ?w)", THEN conjunct2, THEN conjunct2]
    returned_value[OF w]
  have "lookup (root (the (returned ?w))) (resolve example_fs ''out/new.txt'') = Some (File [1])"
    by (elim impE conjE) assumption+
  with rs have k: "lookup (root (the (returned ?w))) [''tmp'', ''out'', ''new.txt''] = Some (File [1])"
    by simp
  have r: "lookup (root (fst (extractZipFile (\<lambda>d. Inr rooted_entry) example_clock ''in.zip'' ''out''
                        example_fs)))
       [''tmp'', ''out'', ''etc'', ''passwd''] = Some (File [6, 6, 6])"
    by code_simp
  from a b j u l m w rs k r show ?thesis
    by (intro conjI)
qed

text \<open>
  The entry \<^verbatim>\<open>../../etc/passwd\<close>, extracted by the fflate sample into \<^verbatim>\<open>out\<close>
  from the working directory \<^verbatim>\<open>/tmp\<close>: the run completes, nothing is rejected, and
  \<^verbatim>\<open>/etc/passwd\<close>, which is not under the output directory, has been replaced.  The
  rooted entry \<^verbatim>\<open>/etc/passwd\<close> is not rejected either.
\<close>

theorem output_paths_counterexample:
  "completed (snd (extractZipFile (\<lambda>d. Inr climbing_entry) example_clock ''in.zip'' ''out'' example_fs))
     \<noteq> None \<and>
   journal (fst (extractZipFile (\<lambda>d. Inr climbing_entry) example_clock ''in.zip'' ''out'' example_fs))
     = [(''../etc/passwd'', [6, 6, 6])] \<and>
   resolve example_fs ''../etc/passwd'' = [''etc'', ''passwd''] \<and>
   resolve example_fs ''out'' = [''tmp'', ''out''] \<and>
   \<not> under example_fs ''out'' ''../etc/passwd'' \<and>
   lookup (root example_fs) [''etc'', ''passwd''] = Some (File [114, 111, 111, 116]) \<and>
   lookup (root (fst (extractZipFile (\<lambda>d. Inr climbing_entry) example_clock ''in.zip'' ''out''
                        example_fs)))
     [''etc'', ''passwd''] = Some (File [6, 6, 6]) \<and>
   completed (snd (extractZipFile (\<lambda>d. Inr rooted_entry) example_clock ''in.zip'' ''out'' example_fs))
     \<noteq> None"
  by code_simp

text \<open>
  C2, as the code has it.  No sample compares the size of what was decompressed with a
  size the archive declares.  What the library returns for an entry is written to the sink
  as it is and counted: by the fflate sample for every entry of a completed run, by the
  minizip sample for every entry that is extracted (whatever else the entry record holds),
  by the node:zlib sample for the strategy that succeeds.  An entry of the minizip sample
  fails only with what the library or the file system threw.
\<close>

theorem written_as_returned:
  "(extractZipFile unzipSync now inputFile outputDir fs = (fs', Completed s) \<longrightarrow>
      (\<exists>zipData entries.
         readFileSync fs inputFile = Inr zipData \<and> unzipSync zipData = Inr entries \<and>
         journal fs' = journal fs @ map (\<lambda>(n, c). (path_join [outputDir, n], c)) entries \<and>
         extractedSize s = sum_list (map (\<lambda>(n, c). length c) entries))) \<and>
   (extract_entry extractEntry now outputDir startTime totalFiles fs st e = (fs1, Inr st1)
      \<and> \<not> isDirectory e \<longrightarrow>
      (\<exists>content. extractEntry e = Inr content \<and>
         journal fs1 = journal fs @ [(path_join [outputDir, path e], content)] \<and>
         extractedBytes st1 = extractedBytes st + length content)) \<and>
   (extract_entry extractEntry now outputDir startTime totalFiles fs st e = (fs2, Inl err) \<longrightarrow>
      (\<exists>m. err = LibraryError m \<and> extractEntry e = Inl m) \<or> (\<exists>fe. err = FsError fe)) \<and>
   (try_strategy z fs outputFile d strat = Inr fs3 \<longrightarrow>
      (\<exists>out. decompress z strat d = Inr out \<and> journal fs3 = journal fs @ [(outputFile, out)]))"
proof -
  have a: "\<exists>zipData entries.
         readFileSync fs inputFile = Inr zipData \<and> unzipSync zipData = Inr entries \<and>
         journal fs' = journal fs @ map (\<lambda>(n, c). (path_join [outputDir, n], c)) entries \<and>
         extractedSize s = sum_list (map (\<lambda>(n, c). length c) entries)"
    if c: "extractZipFile unzipSync now inputFile outputDir fs = (fs', Completed s)"
  proof -
    from c obtain zipData entries fs0 st0 where
      e: "ensureDir fs outputDir = Inr fs0" and
      r: "readFileSync fs inputFile = Inr zipData" and
      u: "unzipSync zipData = Inr entries" and
      l: "extract_files outputDir entries fs0 counters_init = (fs', Inr st0)" and
      b: "extractedSize s = totalBytes st0"
      by (rule extractZipFile_completed)
    from extract_files_completed[OF l] ensureDir_journal[OF e] b
    have "journal fs' = journal fs @ map (\<lambda>(n, c). (path_join [outputDir, n], c)) entries"
      "extractedSize s = sum_list (map (\<lambda>(n, c). length c) entries)"
      by (simp_all add: counters_init_def)
    with r u show ?thesis by blast
  qed
  show ?thesis
    using a
      extract_entry_written[of extractEntry now outputDir startTime totalFiles fs st e fs1 st1]
      extract_entry_reason[of extractEntry now outputDir startTime totalFiles fs st e fs2 err]
      try_strategy_written[of z fs outputFile d strat fs3]
    by simp
qed

theorem written_as_returned_witness:
  "completed (snd (extractZipFile (\<lambda>d. Inr two_files) example_clock ''in.zip'' ''out'' example_fs))
     \<noteq> None \<and>
   journal (fst (extractZipFile (\<lambda>d. Inr two_files) example_clock ''in.zip'' ''out'' example_fs))
     = [(''out/a/b.txt'', replicate 10 65), (''out/a/c.bin'', replicate 50 0)] \<and>
   extractedSize (the (completed (snd (extractZipFile (\<lambda>d. Inr two_files) example_clock
                                         ''in.zip'' ''out'' example_fs)))) = 60 \<and>
   returned (snd (extract_entry flaky_extractEntry frozen_clock ''out'' 1700000000000 5
                    example_fs progress_init upper_entry)) \<noteq> None \<and>
   \<not> isDirectory upper_entry \<and>
   flaky_extractEntry upper_entry = Inr [104, 105] \<and>
   journal (fst (extract_entry flaky_extractEntry frozen_clock ''out'' 1700000000000 5
                   example_fs progress_init upper_entry))
     = [(''out/a/b.TXT'', [104, 105])] \<and>
   thrown (snd (extract_entry flaky_extractEntry frozen_clock ''out'' 1700000000000 5
                  example_fs progress_init failing_entry))
     = Some (LibraryError ''invalid distance too far back'') \<and>
   flaky_extractEntry failing_entry = Inl ''invalid distance too far back'' \<and>
   returned (try_strategy raw_stream example_fs ''out/x.bin'' [80, 75, 5, 6] RawDeflate) \<noteq> None \<and>
   decompress raw_stream RawDeflate [80, 75, 5, 6] = Inr [104, 105] \<and>
   journal (the (returned (try_strategy raw_stream example_fs ''out/x.bin'' [80, 75, 5, 6] RawDeflate)))
     = [(''out/x.bin'', [104, 105])]"
proof -
  let ?x = "extractZipFile (\<lambda>d. Inr two_files) example_clock ''in.zip'' ''out'' example_fs"
  let ?s = "extract_entry flaky_extractEntry frozen_clock ''out'' 1700000000000 5
              example_fs progress_init upper_entry"
  let ?f = "extract_entry flaky_extractEntry frozen_clock ''out'' 1700000000000 5
              example_fs progress_init failing_entry"
  let ?t = "try_strategy raw_stream example_fs ''out/x.bin'' [80, 75, 5, 6] RawDeflate"
  \<comment> \<open>fflate\<close>
  have n: "completed (snd ?x) \<noteq> None"
    by code_simp
  from written_as_returned[where unzipSync = "\<lambda>d. Inr two_files" and now = example_clock
      and inputFile = "''in.zip''" and outputDir = "''out''" and fs = example_fs
      and fs' = "fst ?x" and s = "the (completed (snd ?x))", THEN conjunct1]
    completed_the[OF n]
  obtain zipData entries where
    u: "Inr two_files = (Inr entries :: string + (string \<times> bytes) list)" and
    j: "journal (fst ?x) = journal example_fs @ map (\<lambda>(n, c). (path_join [''out'', n], c)) entries" and
    b: "extractedSize (the (completed (snd ?x))) = sum_list (map (\<lambda>(n, c). length c) entries)"
    by (elim impE exE conjE) (assumption+)
  from u have e: "entries = two_files"
    by simp
  have v: "journal example_fs @ map (\<lambda>(n, c). (path_join [''out'', n], c)) two_files
             = [(''out/a/b.txt'', replicate 10 65), (''out/a/c.bin'', replicate 50 0)]"
    by code_simp
  have w: "sum_list (map (\<lambda>(n, c). length c) two_files) = 60"
    by code_simp
  from j b have c1: "journal (fst ?x)
        = [(''out/a/b.txt'', replicate 10 65), (''out/a/c.bin'', replicate 50 0)]"
    and c2: "extractedSize (the (completed (snd ?x))) = 60"
    unfolding e v w by simp_all
  \<comment> \<open>minizip, an entry that is extracted\<close>
  have h: "returned (snd ?s) \<noteq> None"
    by code_simp
  have d: "\<not> isDirectory upper_entry"
    by code_simp
  have fe: "flaky_extractEntry upper_entry = Inr [104, 105]"
    by code_simp
  from written_as_returned[where extractEntry = flaky_extractEntry and now = frozen_clock
      and outputDir = "''out''" and startTime = 1700000000000 and totalFiles = 5
      and fs = example_fs and st = progress_init and e = upper_entry
      and ?fs1.0 = "fst ?s" and ?st1.0 = "the (returned (snd ?s))", THEN conjunct2, THEN conjunct1]
    returned_run[OF h] d
  obtain content where
    x1: "flaky_extractEntry upper_entry = Inr content" and
    x2: "journal (fst ?s) = journal example_fs @ [(path_join [''out'', path upper_entry], content)]"
    by (elim impE exE conjE) (intro conjI, assumption+)
  from x1 fe have "content = [104, 105]"
    by simp
  moreover have "journal example_fs @ [(path_join [''out'', path upper_entry], [104, 105])]
                   = [(''out/a/b.TXT'', [104, 105])]"
    by code_simp
  ultimately have c3: "journal (fst ?s) = [(''out/a/b.TXT'', [104, 105])]"
    using x2 by simp
  \<comment> \<open>minizip, an entry that fails\<close>
  have t: "thrown (snd ?f) = Some (LibraryError ''invalid distance too far back'')"
    by code_simp
  then have tn: "thrown (snd ?f) \<noteq> None"
    by simp
  have ff: "flaky_extractEntry failing_entry = Inl ''invalid distance too far back''"
    by code_simp
  note written_as_returned[where extractEntry = flaky_extractEntry and now = frozen_clock
      and outputDir = "''out''" and startTime = 1700000000000 and totalFiles = 5
      and fs = example_fs and st = progress_init and e = failing_entry
      and ?fs2.0 = "fst ?f" and err = "the (thrown (snd ?f))",
      THEN conjunct2, THEN conjunct2, THEN conjunct1, rule_format, OF thrown_run[OF tn]]
  \<comment> \<open>node:zlib\<close>
  have r: "returned ?t \<noteq> None"
    by code_simp
  have dd: "decompress raw_stream RawDeflate [80, 75, 5, 6] = Inr [104, 105]"
    by code_simp
  from written_as_returned[where z = raw_stream and fs = example_fs
      and outputFile = "''out/x.bin''" and d = "[80, 75, 5, 6]" and strat = RawDeflate
      and ?fs3.0 = "the (returned ?t)", THEN conjunct2, THEN conjunct2, THEN conjunct2]
    returned_value[OF r]
  obtain out where
    y1: "decompress raw_stream RawDeflate [80, 75, 5, 6] = Inr out" and
    y2: "journal (the (returned ?t)) = journal example_fs @ [(''out/x.bin'', out)]"
    by (elim impE exE conjE) assumption+
  from y1 dd have "out = [104, 105]"
    by simp
  moreover have "journal example_fs = []"
    by code_simp
  ultimately have c4: "journal (the (returned ?t)) = [(''out/x.bin'', [104, 105])]"
    using y2 by simp
  from n c1 c2 h d fe c3 t ff r dd c4 show ?thesis
    by (intro conjI)
qed

text \<open>
  The minizip sample on an entry that declares 10 bytes and for which the library
  returns 50: the 50 bytes are written and the entry is reported as extracted.  The fflate
  sample never sees a declared size; it writes the 50 bytes \<^verbatim>\<open>unzipSync\<close> returned.
\<close>

theorem written_as_returned_counterexample:
  "map uncompressedSize declares_ten = [10] \<and>
   map_option printed
     (completed (snd (extractZip (\<lambda>d. Inr declares_ten) (\<lambda>e. Inr (replicate 50 0)) frozen_clock
                        ''in.zip'' ''out'' example_fs)))
     = Some [Extracted ''a/c.bin'' 50 1 1 PosInfinity] \<and>
   journal (fst (extractZip (\<lambda>d. Inr declares_ten) (\<lambda>e. Inr (replicate 50 0)) frozen_clock
                   ''in.zip'' ''out'' example_fs))
     = [(''out/a/c.bin'', replicate 50 0)] \<and>
   map_option totalSize
     (completed (snd (extractZip (\<lambda>d. Inr declares_ten) (\<lambda>e. Inr (replicate 50 0)) frozen_clock
                        ''in.zip'' ''out'' example_fs)))
     = Some 50 \<and>
   journal (fst (extractZipFile (\<lambda>d. Inr two_files) example_clock ''in.zip'' ''out'' example_fs))
     = [(''out/a/b.txt'', replicate 10 65), (''out/a/c.bin'', replicate 50 0)]"
  by code_simp

text \<open>
  C3, as the code has it.  In the node:zlib sample an attempt is a \<^verbatim>\<open>try\<close> block: the
  call of the decompressor and the write of what it returned.  The attempts run in the
  order standard deflate, raw deflate, gzip; raw deflate is attempted if and only if the
  standard attempt threw, gzip if and only if both threw; the run stops at the first
  attempt that did not throw, exits with 0 exactly then, and the file system has accepted
  exactly one write, the output of that strategy (none when all three threw).  When the
  file system accepts the write, an attempt throws exactly when its decompressor does.
  The minizlib sample has two attempts and no more: a pipeline that reads a zlib or gzip
  header, and, when that pipeline rejects, one without header.
\<close>

theorem fallback_chain:
  "(case decompress_chain z outputFile d fs of (fs', r) \<Rightarrow>
      (attempted r = [Deflate] \<or> attempted r = [Deflate, RawDeflate]
         \<or> attempted r = [Deflate, RawDeflate, GzipWrapped]) \<and>
      (RawDeflate \<in> set (attempted r) \<longleftrightarrow> isl (try_strategy z fs outputFile d Deflate)) \<and>
      (GzipWrapped \<in> set (attempted r) \<longleftrightarrow>
         isl (try_strategy z fs outputFile d Deflate) \<and>
         isl (try_strategy z fs outputFile d RawDeflate)) \<and>
      (exitCode r = 0 \<longleftrightarrow> \<not> isl (try_strategy z fs outputFile d (last (attempted r)))) \<and>
      (exitCode r = 0 \<or> exitCode r = 1) \<and>
      journal fs' = journal fs @
        (case decompress z (last (attempted r)) d of
           Inl msg \<Rightarrow> []
         | Inr out \<Rightarrow> if exitCode r = 0 then [(outputFile, out)] else [])) \<and>
   ((\<forall>c. \<not> isl (writeFileSync fs outputFile c)) \<longrightarrow>
      (isl (try_strategy z fs outputFile d s) \<longleftrightarrow> isl (decompress z s d))) \<and>
   prefix (pipelines (extractCompressed a b)) [UnzipWithHeader, UnzipNoHeader] \<and>
   pipelines (extractCompressed a b) \<noteq> [] \<and>
   (UnzipNoHeader \<in> set (pipelines (extractCompressed a b)) \<longleftrightarrow> a = PipelineRejected)"
  using decompress_chain_facts[where z = z and outputFile = outputFile and d = d and fs = fs]
    try_strategy_sink_ok[where fs = fs and outputFile = outputFile and z = z and d = d and s = s]
    extractCompressed_pipelines[of a b]
  by simp

theorem fallback_chain_witness:
  "(\<forall>c. \<not> isl (writeFileSync example_fs ''out/x.bin'' c)) \<and>
   isl (decompress raw_stream Deflate [80, 75, 5, 6]) \<and>
   isl (try_strategy raw_stream example_fs ''out/x.bin'' [80, 75, 5, 6] Deflate) \<and>
   \<not> isl (try_strategy raw_stream example_fs ''out/x.bin'' [80, 75, 5, 6] RawDeflate) \<and>
   attempted (snd (decompress_chain raw_stream ''out/x.bin'' [80, 75, 5, 6] example_fs))
     = [Deflate, RawDeflate] \<and>
   exitCode (snd (decompress_chain raw_stream ''out/x.bin'' [80, 75, 5, 6] example_fs)) = 0 \<and>
   journal (fst (decompress_chain raw_stream ''out/x.bin'' [80, 75, 5, 6] example_fs))
     = [(''out/x.bin'', [104, 105])]"
proof -
  have "\<not> isl (writeFileSync example_fs ''out/x.bin'' [])"
    by code_simp
  then have w: "\<forall>c. \<not> isl (writeFileSync example_fs ''out/x.bin'' c)"
    using writeFileSync_isl by blast
  have d: "isl (decompress raw_stream Deflate [80, 75, 5, 6])"
    by code_simp
  note t = fallback_chain[where z = raw_stream and outputFile = "''out/x.bin''"
      and d = "[80, 75, 5, 6]" and fs = example_fs and s = Deflate,
      THEN conjunct2, THEN conjunct1]
  from t w d have a: "isl (try_strategy raw_stream example_fs ''out/x.bin'' [80, 75, 5, 6] Deflate)"
    by simp
  have b: "\<not> isl (try_strategy raw_stream example_fs ''out/x.bin'' [80, 75, 5, 6] RawDeflate)"
    by code_simp
  have r: "attempted (snd (decompress_chain raw_stream ''out/x.bin'' [80, 75, 5, 6] example_fs))
             = [Deflate, RawDeflate] \<and>
           exitCode (snd (decompress_chain raw_stream ''out/x.bin'' [80, 75, 5, 6] example_fs)) = 0 \<and>
           journal (fst (decompress_chain raw_stream ''out/x.bin'' [80, 75, 5, 6] example_fs))
             = [(''out/x.bin'', [104, 105])]"
    by code_simp
  from w d a b r show ?thesis
    by simp
qed

text \<open>
  Where the claim fails.  In the minizlib sample both pipelines reject: the process
  exits with 1 after the headerless attempt, and there is no gzip attempt after it.  In
  the node:zlib sample the output path is an existing directory: \<^verbatim>\<open>inflateSync\<close>
  returns the data, the write throws, and raw deflate and gzip are attempted although the
  standard deflate did not fail.
\<close>

theorem fallback_chain_counterexample:
  "pipelines (extractCompressed PipelineRejected PipelineRejected)
     = [UnzipWithHeader, UnzipNoHeader] \<and>
   exit_code (extractCompressed PipelineRejected PipelineRejected) = 1 \<and>
   decompress zlib_stream Deflate [80, 75, 5, 6] = Inr [104, 105] \<and>
   attempted (snd (decompress_file zlib_stream ''in.zip'' ''out'' example_fs))
     = [Deflate, RawDeflate, GzipWrapped] \<and>
   exitCode (snd (decompress_file zlib_stream ''in.zip'' ''out'' example_fs)) = 1"
  by code_simp

text \<open>
  C4, as the code has it.  In the minizip sample a failure while an entry is extracted
  (the file system refuses the directory or the write, or the library throws) is caught:
  the line \<^verbatim>\<open>Error extracting <path>: <reason>\<close> is printed and the loop goes on with
  the next entry.  A run that has opened the archive therefore always runs to its end, and
  it has printed exactly one line for every non-directory entry, in the order of the
  archive: the progress line of the entry, or its error line.  In the fflate sample nothing
  catches inside the loop: the first entry that fails ends the loop with that failure,
  whatever entries follow.
\<close>

theorem per_entry_failures:
  "(extract_entry extractEntry now outputDir startTime totalFiles fs st e = (fs1, Inl err) \<longrightarrow>
      extract_entries extractEntry now outputDir startTime totalFiles (e # es) fs st =
        extract_entries extractEntry now outputDir startTime totalFiles es fs1
          (st\<lparr>console := console st @ [ErrorExtracting (path e) err]\<rparr>)) \<and>
   (extractZip openArchive extractEntry now inputFile outputDir fs = (fs', Completed rep) \<longrightarrow>
      (\<exists>zipData entries. openArchive zipData = Inr entries \<and>
         map line_path (printed rep) = map path (filter (\<lambda>e. \<not> isDirectory e) entries))) \<and>
   (existsSync fs inputFile \<and>
    (if \<not> existsSync fs outputDir then mkdirSync fs outputDir else Inr fs) = Inr fs2 \<and>
    readFileSync fs2 inputFile = Inr zipData \<and> openArchive zipData = Inr entries \<longrightarrow>
      (\<exists>rep. snd (extractZip openArchive extractEntry now inputFile outputDir fs) = Completed rep)) \<and>
   (extract_files outputDir [x] fs0 c0 = (fs3, Inl ferr) \<longrightarrow>
      extract_files outputDir (x # rest) fs0 c0 = (fs3, Inl ferr))"
proof -
  have a: "\<exists>zipData entries. openArchive zipData = Inr entries \<and>
         map line_path (printed rep) = map path (filter (\<lambda>e. \<not> isDirectory e) entries)"
    if c: "extractZip openArchive extractEntry now inputFile outputDir fs = (fs', Completed rep)"
  proof -
    from c obtain zipData entries fs1 st where
      o: "openArchive zipData = Inr entries" and
      l: "extract_entries extractEntry now outputDir (now 0) (length entries) entries fs1
            progress_init = (fs', st)" and
      p: "printed rep = console st"
      by (rule extractZip_completed)
    from extract_entries_facts[OF l] p
    have "map line_path (printed rep) = map path (filter (\<lambda>e. \<not> isDirectory e) entries)"
      by (auto simp: progress_init_def)
    with o show ?thesis by blast
  qed
  show ?thesis
    using a extractZip_opened[of fs inputFile outputDir fs2 zipData openArchive entries extractEntry now]
      extract_files_stops[of outputDir x fs0 c0 fs3 ferr rest]
    by simp
qed

theorem per_entry_failures_witness:
  "thrown (snd (extract_entry flaky_extractEntry frozen_clock ''out'' 1700000000000 5
                  example_fs progress_init failing_entry))
     = Some (LibraryError ''invalid distance too far back'') \<and>
   console (snd (extract_entries flaky_extractEntry frozen_clock ''out'' 1700000000000 5
                   [failing_entry, upper_entry] example_fs progress_init))
     = [ErrorExtracting ''c.txt'' (LibraryError ''invalid distance too far back''),
        Extracted ''a/b.TXT'' 2 1 5 PosInfinity] \<and>
   map_option printed
     (completed (snd (extractZip (\<lambda>d. Inr mixed_entries) flaky_extractEntry frozen_clock
                        ''in.zip'' ''out'' example_fs)))
     = Some [Extracted ''a/b.TXT'' 2 2 5 PosInfinity,
             ErrorExtracting ''old.txt/x'' (FsError ENOTDIR),
             ErrorExtracting ''c.txt'' (LibraryError ''invalid distance too far back''),
             Extracted ''d.md'' 2 3 5 PosInfinity] \<and>
   map line_path
     (printed (the (completed (snd (extractZip (\<lambda>d. Inr mixed_entries) flaky_extractEntry
                                      frozen_clock ''in.zip'' ''out'' example_fs)))))
     = map path (filter (\<lambda>e. \<not> isDirectory e) mixed_entries) \<and>
   existsSync example_fs ''in.zip'' \<and>
   readFileSync example_fs ''in.zip'' = Inr [80, 75, 5, 6] \<and>
   (\<exists>rep. snd (extractZip (\<lambda>d. Inr mixed_entries) flaky_extractEntry frozen_clock
                   ''in.zip'' ''out'' example_fs) = Completed rep) \<and>
   thrown (snd (extract_files ''out'' [(''old.txt/x'', [1])] example_fs counters_init))
     = Some ENOTDIR \<and>
   thrown (snd (extract_files ''out'' blocked_first example_fs counters_init)) = Some ENOTDIR"
proof -
  let ?step = "extract_entry flaky_extractEntry frozen_clock ''out'' 1700000000000 5
                 example_fs progress_init failing_entry"
  let ?x = "extractZip (\<lambda>d. Inr mixed_entries) flaky_extractEntry frozen_clock
              ''in.zip'' ''out'' example_fs"
  let ?one = "extract_files ''out'' [(''old.txt/x'', [1])] example_fs counters_init"
  \<comment> \<open>the failing entry is reported and the loop goes on\<close>
  have t: "thrown (snd ?step) = Some (LibraryError ''invalid distance too far back'')"
    by code_simp
  then have "thrown (snd ?step) \<noteq> None"
    by simp
  from per_entry_failures[where extractEntry = flaky_extractEntry and now = frozen_clock
      and outputDir = "''out''" and startTime = 1700000000000 and totalFiles = 5
      and fs = example_fs and st = progress_init and e = failing_entry and es = "[upper_entry]"
      and ?fs1.0 = "fst ?step" and err = "the (thrown (snd ?step))", THEN conjunct1]
    thrown_run[OF this]
  have "extract_entries flaky_extractEntry frozen_clock ''out'' 1700000000000 5
          [failing_entry, upper_entry] example_fs progress_init
        = extract_entries flaky_extractEntry frozen_clock ''out'' 1700000000000 5
            [upper_entry] (fst ?step)
            (progress_init\<lparr>console := console progress_init @
               [ErrorExtracting (path failing_entry) (the (thrown (snd ?step)))]\<rparr>)"
    by (elim impE) assumption+
  moreover have "console (snd (extract_entries flaky_extractEntry frozen_clock ''out''
            1700000000000 5 [upper_entry] (fst ?step)
            (progress_init\<lparr>console := console progress_init @
               [ErrorExtracting (path failing_entry) (the (thrown (snd ?step)))]\<rparr>)))
     = [ErrorExtracting ''c.txt'' (LibraryError ''invalid distance too far back''),
        Extracted ''a/b.TXT'' 2 1 5 PosInfinity]"
    by code_simp
  ultimately have c1: "console (snd (extract_entries flaky_extractEntry frozen_clock ''out''
                   1700000000000 5 [failing_entry, upper_entry] example_fs progress_init))
     = [ErrorExtracting ''c.txt'' (LibraryError ''invalid distance too far back''),
        Extracted ''a/b.TXT'' 2 1 5 PosInfinity]"
    by simp
  \<comment> \<open>a whole run\<close>
  have p: "map_option printed (completed (snd ?x))
     = Some [Extracted ''a/b.TXT'' 2 2 5 PosInfinity,
             ErrorExtracting ''old.txt/x'' (FsError ENOTDIR),
             ErrorExtracting ''c.txt'' (LibraryError ''invalid distance too far back''),
             Extracted ''d.md'' 2 3 5 PosInfinity]"
    by code_simp
  then have n: "completed (snd ?x) \<noteq> None"
    by auto
  from per_entry_failures[where openArchive = "\<lambda>d. Inr mixed_entries"
      and extractEntry = flaky_extractEntry and now = frozen_clock and inputFile = "''in.zip''"
      and outputDir = "''out''" and fs = example_fs and fs' = "fst ?x"
      and rep = "the (completed (snd ?x))", THEN conjunct2, THEN conjunct1]
    completed_the[OF n]
  obtain zipData entries where
    u: "Inr mixed_entries = (Inr entries :: string + entry list)" and
    m: "map line_path (printed (the (completed (snd ?x))))
          = map path (filter (\<lambda>e. \<not> isDirectory e) entries)"
    by (elim impE exE conjE) (assumption+)
  from u m have c2: "map line_path (printed (the (completed (snd ?x))))
          = map path (filter (\<lambda>e. \<not> isDirectory e) mixed_entries)"
    by simp
  \<comment> \<open>an opened archive is always run to its end\<close>
  have e: "existsSync example_fs ''in.zip''"
    by code_simp
  have d: "(if \<not> existsSync example_fs ''out'' then mkdirSync example_fs ''out''
            else Inr example_fs) = Inr example_fs"
    by code_simp
  have r: "readFileSync example_fs ''in.zip'' = Inr [80, 75, 5, 6]"
    by code_simp
  from per_entry_failures[where openArchive = "\<lambda>d. Inr mixed_entries"
      and extractEntry = flaky_extractEntry and now = frozen_clock and inputFile = "''in.zip''"
      and outputDir = "''out''" and fs = example_fs and ?fs2.0 = example_fs
      and zipData = "[80, 75, 5, 6]" and entries = mixed_entries,
      THEN conjunct2, THEN conjunct2, THEN conjunct1] e d r
  have c3: "\<exists>rep. snd ?x = Completed rep"
    by (elim impE) (intro conjI, assumption+, rule refl)
  \<comment> \<open>the fflate loop stops at the entry that fails\<close>
  have f: "thrown (snd ?one) = Some ENOTDIR"
    by code_simp
  then have "thrown (snd ?one) \<noteq> None"
    by simp
  from per_entry_failures[where outputDir = "''out''" and x = "(''old.txt/x'', [1])"
      and ?fs0.0 = example_fs and ?c0.0 = counters_init and ?fs3.0 = "fst ?one"
      and ferr = "the (thrown (snd ?one))" and rest = "[(''b.txt'', replicate 10 65)]",
      THEN conjunct2, THEN conjunct2, THEN conjunct2]
    thrown_run[OF this]
  have "extract_files ''out'' ((''old.txt/x'', [1]) # [(''b.txt'', replicate 10 65)])
          example_fs counters_init = (fst ?one, Inl (the (thrown (snd ?one))))"
    by (elim impE) assumption+
  then have c4: "thrown (snd (extract_files ''out'' blocked_first example_fs counters_init))
                   = Some ENOTDIR"
    using f by (simp add: blocked_first_def thrown_def)
  from t c1 p c2 e r c3 f c4 show ?thesis
    by (intro conjI)
qed

text \<open>
  The fflate sample on an archive that lists a directory before the file in it: the write
  to \<^verbatim>\<open>out/a/\<close> throws, the process exits with 1, and the file that follows is never
  written.
\<close>

theorem per_entry_failures_counterexample:
  "snd (extractZipFile (\<lambda>d. Inr blocked_first) example_clock ''in.zip'' ''out'' example_fs)
     = Exit1 (FsError ENOTDIR) \<and>
   journal (fst (extractZipFile (\<lambda>d. Inr blocked_first) example_clock ''in.zip'' ''out'' example_fs))
     = [] \<and>
   lookup (root (fst (extractZipFile (\<lambda>d. Inr blocked_first) example_clock ''in.zip'' ''out''
                        example_fs)))
     [''tmp'', ''out'', ''b.txt''] = None \<and>
   snd (extractZipFile (\<lambda>d. Inr directory_first) example_clock ''in.zip'' ''out'' example_fs)
     = Exit1 (FsError EISDIR) \<and>
   journal (fst (extractZipFile (\<lambda>d. Inr directory_first) example_clock ''in.zip'' ''out'' example_fs))
     = [] \<and>
   lookup (root (fst (extractZipFile (\<lambda>d. Inr directory_first) example_clock ''in.zip'' ''out''
                        example_fs)))
     [''tmp'', ''out'', ''a'', ''b.txt''] = None"
  by code_simp




text \<open>
  C6, as the code has it.  The throughput is the byte count divided by the seconds
  between two readings of the wall clock, and nothing guards the division: when the two
  readings are equal the figure is \<^verbatim>\<open>Infinity\<close>, or \<^verbatim>\<open>NaN\<close> when no byte was
  written; otherwise it is the quotient.  This is the figure in every progress line of the
  minizip sample and in the summary of the fflate sample.  Only the progress handler of
  the minizlib sample, which reports when at least 100 ms have passed since its last
  report, always divides by a positive duration (its last report is never before the
  start).
\<close>

theorem throughput_unguarded:
  "bytesPerSecond b startTime t =
     (if t \<noteq> startTime then Finite (of_nat b * 1000 / of_int (t - startTime))
      else if b = 0 then NaN else PosInfinity) \<and>
   (extract_entry extractEntry now outputDir startTime totalFiles fs st e = (fs', Inr st')
      \<and> \<not> isDirectory e \<longrightarrow>
      (\<exists>n. console st' = console st @
         [Extracted (path e) n (extractedCount st') totalFiles
            (bytesPerSecond (extractedBytes st') startTime (now (clockReads st)))])) \<and>
   (extractZipFile unzipSync now inputFile outputDir fs = (fs', Completed s) \<longrightarrow>
      averageSpeed s = formatSize (bytesPerSecond (extractedSize s) (now 0) (now 1))) \<and>
   (startTime \<le> lastProgress tr \<and> on_data startTime tr n t = (tr', Some v) \<longrightarrow>
      is_finite v \<and> startTime \<le> lastProgress tr') \<and>
   (startTime \<le> lastProgress tr \<and> on_data startTime tr n t = (tr', None) \<longrightarrow>
      startTime \<le> lastProgress tr')"
proof -
  have z: "averageSpeed s = formatSize (bytesPerSecond (extractedSize s) (now 0) (now 1))"
    if "extractZipFile unzipSync now inputFile outputDir fs = (fs', Completed s)"
    using that by (rule extractZipFile_completed) simp
  show ?thesis
    using bytesPerSecond_cases[of b startTime t]
      extract_entry_line[of extractEntry now outputDir startTime totalFiles fs st e fs' st']
      z on_data_reported[of startTime tr n t tr' v] on_data_silent[of startTime tr n t tr']
    by blast
qed

theorem throughput_unguarded_witness:
  "bytesPerSecond 60 1000 1250 = Finite 240 \<and>
   bytesPerSecond 60 1000 1000 = PosInfinity \<and>
   bytesPerSecond 0 1000 1000 = NaN \<and>
   returned (snd (extract_entry flaky_extractEntry frozen_clock ''out'' 1700000000000 5
                    example_fs progress_init upper_entry)) \<noteq> None \<and>
   \<not> isDirectory upper_entry \<and>
   (\<exists>n. console (the (returned (snd (extract_entry flaky_extractEntry frozen_clock ''out''
                                       1700000000000 5 example_fs progress_init upper_entry))))
          = console progress_init @ [Extracted ''a/b.TXT'' n 1 5 PosInfinity]) \<and>
   completed (snd (extractZipFile (\<lambda>d. Inr two_files) frozen_clock ''in.zip'' ''out'' example_fs))
     \<noteq> None \<and>
   averageSpeed (the (completed (snd (extractZipFile (\<lambda>d. Inr two_files) frozen_clock ''in.zip''
                                        ''out'' example_fs))))
     = formatSize (bytesPerSecond 60 (frozen_clock 0) (frozen_clock 1)) \<and>
   on_data 1000 \<lparr>processedBytes = 0, lastProgress = 1000\<rparr> 16384 1100
     = (\<lparr>processedBytes = 16384, lastProgress = 1100\<rparr>, Some (Finite 163840)) \<and>
   is_finite (Finite 163840) \<and>
   on_data 1000 \<lparr>processedBytes = 0, lastProgress = 1000\<rparr> 16384 1050
     = (\<lparr>processedBytes = 16384, lastProgress = 1000\<rparr>, None) \<and>
   (1000::int) \<le> lastProgress \<lparr>processedBytes = 16384, lastProgress = 1000\<rparr>"
proof -
  let ?x = "extract_entry flaky_extractEntry frozen_clock ''out'' 1700000000000 5
              example_fs progress_init upper_entry"
  let ?y = "extractZipFile (\<lambda>d. Inr two_files) frozen_clock ''in.zip'' ''out'' example_fs"
  have o: "on_data 1000 \<lparr>processedBytes = 0, lastProgress = 1000\<rparr> 16384 1100
     = (\<lparr>processedBytes = 16384, lastProgress = 1100\<rparr>, Some (Finite 163840))"
    by (simp add: on_data_def bytesPerSecond_def elapsedSeconds_def Let_def)
  have q: "on_data 1000 \<lparr>processedBytes = 0, lastProgress = 1000\<rparr> 16384 1050
     = (\<lparr>processedBytes = 16384, lastProgress = 1000\<rparr>, None)"
    by (simp add: on_data_def Let_def)
  have l: "(1000::int) \<le> lastProgress \<lparr>processedBytes = 0, lastProgress = 1000\<rparr>"
    by simp
  from throughput_unguarded[where startTime = 1000
      and tr = "\<lparr>processedBytes = 0, lastProgress = 1000\<rparr>" and n = 16384 and t = 1100
      and tr' = "\<lparr>processedBytes = 16384, lastProgress = 1100\<rparr>" and v = "Finite 163840",
      THEN conjunct2, THEN conjunct2, THEN conjunct2, THEN conjunct1] o l
  have f: "is_finite (Finite 163840)"
    by simp
  from throughput_unguarded[where startTime = 1000
      and tr = "\<lparr>processedBytes = 0, lastProgress = 1000\<rparr>" and n = 16384 and t = 1050
      and tr' = "\<lparr>processedBytes = 16384, lastProgress = 1000\<rparr>",
      THEN conjunct2, THEN conjunct2, THEN conjunct2, THEN conjunct2] q l
  have g: "(1000::int) \<le> lastProgress \<lparr>processedBytes = 16384, lastProgress = 1000\<rparr>"
    by (elim impE) (intro conjI, assumption+)
  from throughput_unguarded[where b = 60 and startTime = 1000 and t = 1250, THEN conjunct1]
  have a: "bytesPerSecond 60 1000 1250 = Finite 240"
    by simp
  from throughput_unguarded[where b = 60 and startTime = 1000 and t = 1000, THEN conjunct1]
  have b: "bytesPerSecond 60 1000 1000 = PosInfinity"
    by simp
  from throughput_unguarded[where b = 0 and startTime = 1000 and t = 1000, THEN conjunct1]
  have c: "bytesPerSecond 0 1000 1000 = NaN"
    by simp
  have h4: "returned (snd ?x) \<noteq> None"
    by code_simp
  have h5: "\<not> isDirectory upper_entry"
    by code_simp
  have vals: "path upper_entry = ''a/b.TXT'' \<and> extractedCount (the (returned (snd ?x))) = 1 \<and>
     bytesPerSecond (extractedBytes (the (returned (snd ?x)))) 1700000000000
       (frozen_clock (clockReads progress_init)) = PosInfinity"
    by code_simp
  from throughput_unguarded[where extractEntry = flaky_extractEntry and now = frozen_clock
      and outputDir = "''out''" and startTime = 1700000000000 and totalFiles = 5
      and fs = example_fs and st = progress_init and e = upper_entry
      and fs' = "fst ?x" and st' = "the (returned (snd ?x))",
      THEN conjunct2, THEN conjunct1]
    returned_run[OF h4] h5
  have "\<exists>n. console (the (returned (snd ?x))) = console progress_init @
          [Extracted (path upper_entry) n (extractedCount (the (returned (snd ?x)))) 5
             (bytesPerSecond (extractedBytes (the (returned (snd ?x)))) 1700000000000
                (frozen_clock (clockReads progress_init)))]"
    by (elim impE) (intro conjI, assumption+)
  with vals have line:
    "\<exists>n. console (the (returned (snd ?x)))
          = console progress_init @ [Extracted ''a/b.TXT'' n 1 5 PosInfinity]"
    by simp
  have h6: "completed (snd ?y) \<noteq> None"
    by code_simp
  have sz: "extractedSize (the (completed (snd ?y))) = 60"
    by code_simp
  from throughput_unguarded[where unzipSync = "\<lambda>d. Inr two_files" and now = frozen_clock
      and inputFile = "''in.zip''" and outputDir = "''out''" and fs = example_fs
      and fs' = "fst ?y" and s = "the (completed (snd ?y))",
      THEN conjunct2, THEN conjunct2, THEN conjunct1]
    completed_the[OF h6]
  have "averageSpeed (the (completed (snd ?y)))
          = formatSize (bytesPerSecond (extractedSize (the (completed (snd ?y))))
                          (frozen_clock 0) (frozen_clock 1))"
    by (elim impE) assumption+
  with sz have sp: "averageSpeed (the (completed (snd ?y)))
          = formatSize (bytesPerSecond 60 (frozen_clock 0) (frozen_clock 1))"
    by simp
  from a b c h4 h5 line h6 sp o f q g show ?thesis
    by (intro conjI)
qed

text \<open>
  Two files are extracted while the clock stays within one millisecond: the fflate
  summary prints \<^verbatim>\<open>Infinity GB/sec\<close>, the minizip sample prints \<^verbatim>\<open>Infinity\<close> in
  its progress line, and an empty archive gives \<^verbatim>\<open>NaN B/sec\<close>.
\<close>

theorem throughput_unguarded_counterexample:
  "map_option averageSpeed
     (completed (snd (extractZipFile (\<lambda>d. Inr two_files) frozen_clock ''in.zip'' ''out'' example_fs)))
     = Some (PosInfinity, ''GB'') \<and>
   map_option averageSpeed
     (completed (snd (extractZipFile (\<lambda>d. Inr []) frozen_clock ''in.zip'' ''out'' example_fs)))
     = Some (NaN, ''B'') \<and>
   map_option printed
     (completed (snd (extractZip (\<lambda>d. Inr [\<lparr>path = ''a.txt'', isDirectory = False\<rparr>])
                        (\<lambda>e. Inr [104, 105]) frozen_clock ''in.zip'' ''out'' example_fs)))
     = Some [Extracted ''a.txt'' 2 1 1 PosInfinity]"
  by code_simp

text \<open>
  C7, as the code has it.  The report is sorted by count, largest first; the comparator
  looks at the counts only and the sort is stable, so the extensions that share a count
  keep the order in which they entered the record (the order in which the run first met
  them), not the alphabetical one.
\<close>

theorem report_order:
  "sorted_wrt (\<lambda>a b. snd b \<le> snd a) (sorted_file_types counts) \<and>
   (\<forall>n. filter (\<lambda>e. snd e = n) (sorted_file_types counts) = filter (\<lambda>e. snd e = n) counts)"
proof -
  let ?f = "\<lambda>e :: string \<times> nat. - int (snd e)"
  have "sorted (map ?f (sort_key ?f counts))"
    by (rule sorted_sort_key)
  then have a: "sorted_wrt (\<lambda>a b. snd b \<le> snd a) (sort_key ?f counts)"
    by (simp add: sorted_map)
  have b: "filter (\<lambda>e. snd e = n) (sort_key ?f counts) = filter (\<lambda>e. snd e = n) counts" for n
  proof -
    have "(\<lambda>e :: string \<times> nat. snd e = n) = (\<lambda>e. ?f e = - int n)"
      by auto
    then show ?thesis
      using sort_key_stable[of ?f "- int n" counts] by simp
  qed
  show ?thesis
    using a b by (simp add: sorted_file_types_def stable_sort_sort_key)
qed

theorem report_order_witness:
  "sorted_wrt (\<lambda>a b. snd b \<le> snd a) (sorted_file_types three_types) \<and>
   filter (\<lambda>e. snd e = 3) (sorted_file_types three_types) = [(''.txt'', 3), (''.md'', 3)] \<and>
   filter (\<lambda>e. snd e = 1) (sorted_file_types three_types) = [(''.png'', 1)]"
proof -
  have a: "filter (\<lambda>e. snd e = 3) three_types = [(''.txt'', 3), (''.md'', 3)]"
    by code_simp
  have b: "filter (\<lambda>e. snd e = 1) three_types = [(''.png'', 1)]"
    by code_simp
  from report_order[of three_types] a b show ?thesis
    by simp
qed

text \<open>
  The claim's own example: the minizip sample extracts seven files whose extensions are
  met in the order \<^verbatim>\<open>.txt\<close>, \<^verbatim>\<open>.png\<close>, \<^verbatim>\<open>.md\<close>; the report lists
  \<^verbatim>\<open>.txt\<close> before \<^verbatim>\<open>.md\<close>, not \<^verbatim>\<open>.md\<close> first.
\<close>

theorem report_order_counterexample:
  "map_option typesExtracted
     (completed (snd (extractZip (\<lambda>d. Inr seven_entries) (\<lambda>e. Inr [0]) example_clock
                        ''in.zip'' ''out'' example_fs)))
     = Some [(''.txt'', 3), (''.md'', 3), (''.png'', 1)] \<and>
   map_option typesExtracted
     (completed (snd (extractZip (\<lambda>d. Inr seven_entries) (\<lambda>e. Inr [0]) example_clock
                        ''in.zip'' ''out'' example_fs)))
     \<noteq> Some [(''.md'', 3), (''.txt'', 3), (''.png'', 1)] \<and>
   sorted_file_types three_types = [(''.txt'', 3), (''.md'', 3), (''.png'', 1)]"
  by code_simp

text \<open>
  C8.  Extension bucketing is case-insensitive, and a file without extension is counted
  under \<^verbatim>\<open>(no extension)\<close>.  The bucket key of a name whose last dot has a character
  of the base name before it and a non-empty extension after it is the dot and the
  extension in lower case, so an extension in lower case is its own key, and two names
  that differ only in case have the same key.  A base name without a dot, or whose only
  dot is its first character, has the key \<^verbatim>\<open>(no extension)\<close>.  Counting a key that
  the record has increments its count where it stands, and no second property appears; a
  key that the record does not have is added at its end with the count 1.  This is what
  the minizip sample does with the path of every entry it extracts, and what the walk of
  the fflate sample does with the name of every file it lists.
\<close>

theorem extension_bucketing:
  "(b \<noteq> slash \<and> e \<noteq> [] \<and> dot \<notin> set e \<and> slash \<notin> set e \<longrightarrow>
      ext_key (pre @ b # dot # e) = dot # toLowerCase e) \<and>
   (b \<noteq> slash \<and> e \<noteq> [] \<and> (\<forall>c \<in> set e. 97 \<le> (of_char c :: nat) \<and> (of_char c :: nat) \<le> 122) \<longrightarrow>
      ext_key (pre @ b # dot # e) = dot # e) \<and>
   (toLowerCase p = toLowerCase q \<longrightarrow> ext_key p = ext_key q) \<and>
   (base \<noteq> [] \<and> dot \<notin> set base \<and> slash \<notin> set base \<longrightarrow>
      ext_key base = ''(no extension)'' \<and> ext_key (pre @ slash # base) = ''(no extension)'') \<and>
   (dot \<notin> set h \<and> slash \<notin> set h \<longrightarrow>
      ext_key (dot # h) = ''(no extension)'' \<and> ext_key (pre @ slash # dot # h) = ''(no extension)'') \<and>
   (distinct (map fst counts) \<and> i < length counts \<and> counts ! i = (k, n) \<longrightarrow>
      add_count counts k 1 = counts[i := (k, n + 1)]) \<and>
   (k \<notin> fst ` set counts \<longrightarrow> add_count counts k 1 = counts @ [(k, 1)]) \<and>
   (extract_entry extractEntry now outputDir startTime totalFiles fs st ent = (fs', Inr st')
      \<and> \<not> isDirectory ent \<longrightarrow>
      typeCounts st' = add_count (typeCounts st) (ext_key (path ent)) 1) \<and>
   (readdir fs dirPath = Inr (map (\<lambda>(name, c). (name, File c)) fl) \<longrightarrow>
      getFileTypeStats fs dirPath =
        Inr (foldl (\<lambda>acc (name, c). add_count acc (ext_key name) 1) [] fl))"
proof -
  have c1: "ext_key (pre @ b # dot # e) = dot # toLowerCase e"
    if "b \<noteq> slash" "e \<noteq> []" "dot \<notin> set e" "slash \<notin> set e"
    using ext_key_extension[OF that] .
  have c2: "ext_key (pre @ b # dot # e) = dot # e"
    if h: "b \<noteq> slash" "e \<noteq> []"
      "\<forall>c \<in> set e. 97 \<le> (of_char c :: nat) \<and> (of_char c :: nat) \<le> 122"
  proof -
    have "dot \<notin> set e" "slash \<notin> set e"
      using h(3) by (auto simp: dot_def slash_def)
    from ext_key_extension[OF h(1,2) this] toLowerCase_lower[OF h(3)]
    show ?thesis by simp
  qed
  have c3: "ext_key p = ext_key q" if "toLowerCase p = toLowerCase q"
    using that ext_key_lower[of p] ext_key_lower[of q] by simp
  have c4: "ext_key base = ''(no extension)'' \<and> ext_key (pre @ slash # base) = ''(no extension)''"
    if "base \<noteq> []" "dot \<notin> set base" "slash \<notin> set base"
    using extname_no_dot[OF that(2)] extname_plain[OF that, of pre]
    by (simp add: ext_key_def toLowerCase_def)
  have c5: "ext_key (dot # h) = ''(no extension)'' \<and> ext_key (pre @ slash # dot # h) = ''(no extension)''"
    if "dot \<notin> set h" "slash \<notin> set h"
    using extname_dotfile(1)[OF that] extname_dotfile(2)[OF that, of pre]
    by (simp add: ext_key_def toLowerCase_def)
  have c6: "add_count counts k 1 = counts[i := (k, n + 1)]"
    if "distinct (map fst counts)" "i < length counts" "counts ! i = (k, n)"
    using add_count_present[OF that] .
  have c7: "add_count counts k 1 = counts @ [(k, 1)]" if "k \<notin> fst ` set counts"
    using add_count_absent[OF that] .
  have c8: "typeCounts st' = add_count (typeCounts st) (ext_key (path ent)) 1"
    if "extract_entry extractEntry now outputDir startTime totalFiles fs st ent = (fs', Inr st')"
      "\<not> isDirectory ent"
    using extract_entry_typeCounts[OF that(1)] that(2) by simp
  have c9: "getFileTypeStats fs dirPath =
        Inr (foldl (\<lambda>acc (name, c). add_count acc (ext_key name) 1) [] fl)"
    if "readdir fs dirPath = Inr (map (\<lambda>(name, c). (name, File c)) fl)"
    using that by (simp add: getFileTypeStats_def walk_entries_files)
  show ?thesis
    using c1 c2 c3 c4 c5 c6 c7 c8 c9 by blast
qed

theorem extension_bucketing_witness:
  "ext_key ''docs/NOTES.TXT'' = ''.txt'' \<and>
   ext_key ''docs/notes.txt'' = ''.txt'' \<and>
   ext_key ''archive.tar.GZ'' = ''.gz'' \<and>
   ext_key [CHR ''a'', CHR ''.'', CHR 0xC9] = [CHR ''.'', CHR 0xE9] \<and>
   toLowerCase ''docs/NOTES.TXT'' = toLowerCase ''docs/notes.txt'' \<and>
   ext_key ''docs/NOTES.TXT'' = ext_key ''docs/notes.txt'' \<and>
   ext_key ''Makefile'' = ''(no extension)'' \<and>
   ext_key ''src/Makefile'' = ''(no extension)'' \<and>
   ext_key ''.gitignore'' = ''(no extension)'' \<and>
   ext_key ''repo/.gitignore'' = ''(no extension)'' \<and>
   add_count [(''.md'', 1)] (ext_key ''A.TXT'') 1 = [(''.md'', 1), (''.txt'', 1)] \<and>
   add_count [(''.md'', 1), (''.txt'', 1)] (ext_key ''b.txt'') 1 = [(''.md'', 1), (''.txt'', 2)] \<and>
   returned (snd (extract_entry flaky_extractEntry frozen_clock ''out'' 1700000000000 5
                    example_fs progress_init upper_entry)) \<noteq> None \<and>
   \<not> isDirectory upper_entry \<and>
   typeCounts (the (returned (snd (extract_entry flaky_extractEntry frozen_clock ''out''
                                     1700000000000 5 example_fs progress_init upper_entry))))
     = add_count (typeCounts progress_init) (ext_key (path upper_entry)) 1 \<and>
   add_count (typeCounts progress_init) (ext_key (path upper_entry)) 1 = [(''.txt'', 1)] \<and>
   getFileTypeStats mixed_case_fs ''out'' = Inr [(''.txt'', 2), (''(no extension)'', 2)]"
proof -
  let ?x = "extract_entry flaky_extractEntry frozen_clock ''out'' 1700000000000 5
              example_fs progress_init upper_entry"
  have p1: "CHR ''S'' \<noteq> slash \<and> ''TXT'' \<noteq> [] \<and> dot \<notin> set ''TXT'' \<and> slash \<notin> set ''TXT''"
    by (simp add: dot_def slash_def)
  have p1b: "CHR ''r'' \<noteq> slash \<and> ''GZ'' \<noteq> [] \<and> dot \<notin> set ''GZ'' \<and> slash \<notin> set ''GZ''"
    by (simp add: dot_def slash_def)
  have p1c: "CHR ''a'' \<noteq> slash \<and> [CHR 0xC9] \<noteq> [] \<and> dot \<notin> set [CHR 0xC9] \<and> slash \<notin> set [CHR 0xC9]"
    by (simp add: dot_def slash_def)
  have p2: "CHR ''s'' \<noteq> slash \<and> ''txt'' \<noteq> [] \<and>
            (\<forall>c \<in> set ''txt''. 97 \<le> (of_char c :: nat) \<and> (of_char c :: nat) \<le> 122)"
    by (simp add: slash_def)
  have p3: "toLowerCase ''docs/NOTES.TXT'' = toLowerCase ''docs/notes.txt''"
    by code_simp
  have p4: "''Makefile'' \<noteq> [] \<and> dot \<notin> set ''Makefile'' \<and> slash \<notin> set ''Makefile''"
    by (simp add: dot_def slash_def)
  have p5: "dot \<notin> set ''gitignore'' \<and> slash \<notin> set ''gitignore''"
    by (simp add: dot_def slash_def)
  have p6: "distinct (map fst [(''.md'', 1::nat), (''.txt'', 1)]) \<and>
            1 < length [(''.md'', 1::nat), (''.txt'', 1)] \<and>
            [(''.md'', 1::nat), (''.txt'', 1)] ! 1 = (''.txt'', 1)"
    by simp
  have p7: "''.txt'' \<notin> fst ` set [(''.md'', 1::nat)]"
    by simp
  have p8: "returned (snd ?x) \<noteq> None"
    by code_simp
  have p8b: "\<not> isDirectory upper_entry"
    by code_simp
  have p9: "readdir mixed_case_fs ''out'' =
              Inr (map (\<lambda>(name, c). (name, File c))
                     [(''A.TXT'', [1]), (''Makefile'', [2]), (''b.txt'', [3]), (''.gitignore'', [4])])"
    by code_simp
  have k1: "ext_key (''docs/NOTE'' @ CHR ''S'' # dot # ''TXT'') = dot # toLowerCase ''TXT''"
    using extension_bucketing[where pre = "''docs/NOTE''" and b = "CHR ''S''" and e = "''TXT''",
        THEN conjunct1, THEN mp, OF p1] .
  have k1b: "ext_key (''archive.ta'' @ CHR ''r'' # dot # ''GZ'') = dot # toLowerCase ''GZ''"
    using extension_bucketing[where pre = "''archive.ta''" and b = "CHR ''r''" and e = "''GZ''",
        THEN conjunct1, THEN mp, OF p1b] .
  have k1c: "ext_key ([] @ CHR ''a'' # dot # [CHR 0xC9]) = dot # toLowerCase [CHR 0xC9]"
    using extension_bucketing[where pre = "[]" and b = "CHR ''a''" and e = "[CHR 0xC9]",
        THEN conjunct1, THEN mp, OF p1c] .
  have k2: "ext_key (''docs/note'' @ CHR ''s'' # dot # ''txt'') = dot # ''txt''"
    using extension_bucketing[where pre = "''docs/note''" and b = "CHR ''s''" and e = "''txt''",
        THEN conjunct2, THEN conjunct1, THEN mp, OF p2] .
  have k3: "ext_key ''docs/NOTES.TXT'' = ext_key ''docs/notes.txt''"
    using extension_bucketing[where p = "''docs/NOTES.TXT''" and q = "''docs/notes.txt''",
        THEN conjunct2, THEN conjunct2, THEN conjunct1, THEN mp, OF p3] .
  have k4: "ext_key ''Makefile'' = ''(no extension)'' \<and>
            ext_key (''src'' @ slash # ''Makefile'') = ''(no extension)''"
    using extension_bucketing[where base = "''Makefile''" and pre = "''src''",
        THEN conjunct2, THEN conjunct2, THEN conjunct2, THEN conjunct1, THEN mp, OF p4] .
  have k5: "ext_key (dot # ''gitignore'') = ''(no extension)'' \<and>
            ext_key (''repo'' @ slash # dot # ''gitignore'') = ''(no extension)''"
    using extension_bucketing[where h = "''gitignore''" and pre = "''repo''",
        THEN conjunct2, THEN conjunct2, THEN conjunct2, THEN conjunct2, THEN conjunct1,
        THEN mp, OF p5] .
  have k6: "add_count [(''.md'', 1), (''.txt'', 1)] ''.txt'' 1 =
              [(''.md'', 1), (''.txt'', 1)][1 := (''.txt'', 1 + 1)]"
    using extension_bucketing[where counts = "[(''.md'', 1), (''.txt'', 1)]" and i = 1
        and k = "''.txt''" and n = 1,
        THEN conjunct2, THEN conjunct2, THEN conjunct2, THEN conjunct2, THEN conjunct2,
        THEN conjunct1, THEN mp, OF p6] .
  have k7: "add_count [(''.md'', 1)] ''.txt'' 1 = [(''.md'', 1)] @ [(''.txt'', 1)]"
    using extension_bucketing[where counts = "[(''.md'', 1)]" and k = "''.txt''",
        THEN conjunct2, THEN conjunct2, THEN conjunct2, THEN conjunct2, THEN conjunct2,
        THEN conjunct2, THEN conjunct1, THEN mp, OF p7] .
  have k8: "typeCounts (the (returned (snd ?x)))
              = add_count (typeCounts progress_init) (ext_key (path upper_entry)) 1"
    using extension_bucketing[where extractEntry = flaky_extractEntry and now = frozen_clock
        and outputDir = "''out''" and startTime = 1700000000000 and totalFiles = 5
        and fs = example_fs and st = progress_init and ent = upper_entry
        and fs' = "fst ?x" and st' = "the (returned (snd ?x))",
        THEN conjunct2, THEN conjunct2, THEN conjunct2, THEN conjunct2, THEN conjunct2,
        THEN conjunct2, THEN conjunct2, THEN conjunct1, THEN mp, OF conjI,
        OF returned_run[OF p8] p8b] .
  have k9: "getFileTypeStats mixed_case_fs ''out'' =
        Inr (foldl (\<lambda>acc (name, c). add_count acc (ext_key name) 1) []
               [(''A.TXT'', [1::8 word]), (''Makefile'', [2]), (''b.txt'', [3]), (''.gitignore'', [4])])"
    using extension_bucketing[where fs = mixed_case_fs and dirPath = "''out''"
        and fl = "[(''A.TXT'', [1]), (''Makefile'', [2]), (''b.txt'', [3]), (''.gitignore'', [4])]",
        THEN conjunct2, THEN conjunct2, THEN conjunct2, THEN conjunct2, THEN conjunct2,
        THEN conjunct2, THEN conjunct2, THEN conjunct2, THEN mp, OF p9] .
  have v1: "dot # toLowerCase ''TXT'' = ''.txt''" "dot # toLowerCase ''GZ'' = ''.gz''"
    "dot # toLowerCase [CHR 0xC9] = [CHR ''.'', CHR 0xE9]" "dot # ''txt'' = ''.txt''"
    by code_simp+
  have v2: "''docs/NOTE'' @ CHR ''S'' # dot # ''TXT'' = ''docs/NOTES.TXT''"
    "''archive.ta'' @ CHR ''r'' # dot # ''GZ'' = ''archive.tar.GZ''"
    "[] @ CHR ''a'' # dot # [CHR 0xC9] = [CHR ''a'', CHR ''.'', CHR 0xC9]"
    "''docs/note'' @ CHR ''s'' # dot # ''txt'' = ''docs/notes.txt''"
    "''src'' @ slash # ''Makefile'' = ''src/Makefile''"
    "dot # ''gitignore'' = ''.gitignore''"
    "''repo'' @ slash # dot # ''gitignore'' = ''repo/.gitignore''"
    by (simp_all add: dot_def slash_def)
  have v3: "ext_key ''A.TXT'' = ''.txt''" "ext_key ''b.txt'' = ''.txt''"
    by code_simp+
  have v8: "add_count (typeCounts progress_init) (ext_key (path upper_entry)) 1 = [(''.txt'', 1)]"
    by code_simp
  have v9: "foldl (\<lambda>acc (name, c). add_count acc (ext_key name) 1) []
               [(''A.TXT'', [1::8 word]), (''Makefile'', [2]), (''b.txt'', [3]), (''.gitignore'', [4])]
            = [(''.txt'', 2), (''(no extension)'', 2)]"
    by code_simp
  have a: "ext_key ''docs/NOTES.TXT'' = ''.txt''" "ext_key ''archive.tar.GZ'' = ''.gz''"
    "ext_key [CHR ''a'', CHR ''.'', CHR 0xC9] = [CHR ''.'', CHR 0xE9]"
    "ext_key ''docs/notes.txt'' = ''.txt''"
    using k1 k1b k1c k2 unfolding v1 v2 by simp_all
  have b: "ext_key ''Makefile'' = ''(no extension)''" "ext_key ''src/Makefile'' = ''(no extension)''"
    "ext_key ''.gitignore'' = ''(no extension)''" "ext_key ''repo/.gitignore'' = ''(no extension)''"
    using k4 k5 by (simp_all add: dot_def slash_def)
  have c: "add_count [(''.md'', 1)] (ext_key ''A.TXT'') 1 = [(''.md'', 1), (''.txt'', 1)]"
    "add_count [(''.md'', 1), (''.txt'', 1)] (ext_key ''b.txt'') 1 = [(''.md'', 1), (''.txt'', 2)]"
    using k6 k7 unfolding v3 by simp_all
  have d: "getFileTypeStats mixed_case_fs ''out'' = Inr [(''.txt'', 2), (''(no extension)'', 2)]"
    using k9 unfolding v9 .
  from a b c d p3 k3 p8 p8b k8 v8 show ?thesis
    by (intro conjI) assumption+
qed

text \<open>
  C9, as the code has it.  In the minizip sample the statistics are accumulated while the
  entries complete: the report has every bucket once, a bucket is in it exactly when this
  run has reported an entry of that bucket as extracted, and its count is the number of
  these entries.  In the fflate sample the statistics come from a walk of the output
  directory after the extraction: the report has every bucket once, a bucket is in it
  exactly when the tree under the output directory holds a file of that bucket, and its
  count is the number of these files, whoever wrote them.
\<close>

theorem statistics_sources:
  "(extractZip openArchive extractEntry now inputFile outputDir fs = (fs', Completed rep) \<longrightarrow>
      distinct (map fst (typesExtracted rep)) \<and>
      (\<forall>k. map_of (typesExtracted rep) k =
             (if extracted_with k (printed rep) = 0 then None
              else Some (extracted_with k (printed rep))))) \<and>
   (extractZipFile unzipSync now inputFile outputDir fs = (fs'', Completed s) \<longrightarrow>
      (\<exists>entries. readdir fs'' outputDir = Inr entries \<and>
         distinct (map fst (fileTypes s)) \<and>
         (\<forall>k. map_of (fileTypes s) k =
                (if count_files k entries = 0 then None else Some (count_files k entries)))))"
proof -
  have a: "distinct (map fst (typesExtracted rep)) \<and>
      (\<forall>k. map_of (typesExtracted rep) k =
             (if extracted_with k (printed rep) = 0 then None
              else Some (extracted_with k (printed rep))))"
    if c: "extractZip openArchive extractEntry now inputFile outputDir fs = (fs', Completed rep)"
  proof -
    from c obtain zipData entries fs1 st where
      l: "extract_entries extractEntry now outputDir (now 0) (length entries) entries fs1
            progress_init = (fs', st)" and
      p: "printed rep = console st" and
      t: "typesExtracted rep = sorted_file_types (typeCounts st)"
      by (rule extractZip_completed)
    from extract_entries_facts[OF l] p
    have g: "get_count (typeCounts st) k = extracted_with k (printed rep)" for k
      by (auto simp: get_count_def progress_init_def)
    from extract_entries_record[OF l]
    have d: "distinct (map fst (typeCounts st))" and z: "0 \<notin> snd ` set (typeCounts st)"
      by (simp_all add: progress_init_def)
    from record_as_map[OF d z g] sorted_file_types_map_of[OF d] sorted_file_types_distinct[OF d] t
    show ?thesis by simp
  qed
  have b: "\<exists>entries. readdir fs'' outputDir = Inr entries \<and>
         distinct (map fst (fileTypes s)) \<and>
         (\<forall>k. map_of (fileTypes s) k =
                (if count_files k entries = 0 then None else Some (count_files k entries)))"
    if c: "extractZipFile unzipSync now inputFile outputDir fs = (fs'', Completed s)"
  proof -
    from c obtain types where
      g: "getFileTypeStats fs'' outputDir = Inr types" and
      f: "fileTypes s = sorted_file_types types"
      by (rule extractZipFile_completed) blast
    from g obtain entries where
      r: "readdir fs'' outputDir = Inr entries" and w: "types = walk_entries entries []"
      by (auto simp: getFileTypeStats_def split: sum.splits)
    have n: "get_count types k = count_files k entries" for k
      using w get_count_walk_entries[of entries "[]"] by (simp add: get_count_def)
    have d: "distinct (map fst types)"
      unfolding w by (rule distinct_walk_entries) simp
    have z: "0 \<notin> snd ` set types"
      unfolding w by (rule positive_walk_entries) simp
    from record_as_map[OF d z n] sorted_file_types_map_of[OF d] sorted_file_types_distinct[OF d] f r
    show ?thesis by simp
  qed
  from a b show ?thesis by blast
qed

theorem statistics_sources_witness:
  "completed (snd (extractZip (\<lambda>d. Inr mixed_entries) flaky_extractEntry frozen_clock
                     ''in.zip'' ''out'' example_fs)) \<noteq> None \<and>
   typesExtracted (the (completed (snd (extractZip (\<lambda>d. Inr mixed_entries) flaky_extractEntry
                                          frozen_clock ''in.zip'' ''out'' example_fs))))
     = [(''.txt'', 1), (''.md'', 1)] \<and>
   map (\<lambda>k. extracted_with k
               (printed (the (completed (snd (extractZip (\<lambda>d. Inr mixed_entries)
                                                 flaky_extractEntry frozen_clock ''in.zip'' ''out''
                                                 example_fs))))))
     [''.txt'', ''.md'', ''.png''] = [1, 1, 0] \<and>
   distinct (map fst (typesExtracted (the (completed (snd (extractZip (\<lambda>d. Inr mixed_entries)
                                          flaky_extractEntry frozen_clock ''in.zip'' ''out''
                                          example_fs)))))) \<and>
   map (map_of (typesExtracted (the (completed (snd (extractZip (\<lambda>d. Inr mixed_entries)
                                          flaky_extractEntry frozen_clock ''in.zip'' ''out''
                                          example_fs))))))
     [''.txt'', ''.md'', ''.png''] = [Some 1, Some 1, None] \<and>
   completed (snd (extractZipFile (\<lambda>d. Inr two_files) example_clock ''in.zip'' ''out''
                     example_fs)) \<noteq> None \<and>
   fileTypes (the (completed (snd (extractZipFile (\<lambda>d. Inr two_files) example_clock ''in.zip''
                                     ''out'' example_fs))))
     = [(''.txt'', 2), (''.bin'', 1)] \<and>
   readdir (fst (extractZipFile (\<lambda>d. Inr two_files) example_clock ''in.zip'' ''out'' example_fs))
     ''out''
     = Inr [(''old.txt'', File [1, 2]),
            (''a'', Dir [(''b.txt'', File (replicate 10 65)), (''c.bin'', File (replicate 50 0))])] \<and>
   map (\<lambda>k. count_files k
               [(''old.txt'', File [1, 2]),
                (''a'', Dir [(''b.txt'', File (replicate 10 65)), (''c.bin'', File (replicate 50 0))])])
     [''.txt'', ''.bin'', ''.md''] = [2, 1, 0] \<and>
   distinct (map fst (fileTypes (the (completed (snd (extractZipFile (\<lambda>d. Inr two_files)
                                     example_clock ''in.zip'' ''out'' example_fs)))))) \<and>
   map (map_of (fileTypes (the (completed (snd (extractZipFile (\<lambda>d. Inr two_files) example_clock
                                     ''in.zip'' ''out'' example_fs))))))
     [''.txt'', ''.bin'', ''.md''] = [Some 2, Some 1, None]"
proof -
  let ?x = "extractZip (\<lambda>d. Inr mixed_entries) flaky_extractEntry frozen_clock
              ''in.zip'' ''out'' example_fs"
  let ?y = "extractZipFile (\<lambda>d. Inr two_files) example_clock ''in.zip'' ''out'' example_fs"
  let ?es = "[(''old.txt'', File [1, 2]),
              (''a'', Dir [(''b.txt'', File (replicate 10 65)), (''c.bin'', File (replicate 50 0))])]"
  have c: "completed (snd ?x) \<noteq> None"
    by code_simp
  have t: "typesExtracted (the (completed (snd ?x))) = [(''.txt'', 1), (''.md'', 1)]"
    by code_simp
  have e: "extracted_with ''.txt'' (printed (the (completed (snd ?x)))) = 1"
    "extracted_with ''.md'' (printed (the (completed (snd ?x)))) = 1"
    "extracted_with ''.png'' (printed (the (completed (snd ?x)))) = 0"
    by code_simp+
  note dm = statistics_sources[where openArchive = "\<lambda>d. Inr mixed_entries"
      and extractEntry = flaky_extractEntry and now = frozen_clock and inputFile = "''in.zip''"
      and outputDir = "''out''" and fs = example_fs and fs' = "fst ?x"
      and rep = "the (completed (snd ?x))", THEN conjunct1, THEN mp, OF completed_the[OF c]]
  have d: "distinct (map fst (typesExtracted (the (completed (snd ?x)))))"
    using dm[THEN conjunct1] .
  have m: "map_of (typesExtracted (the (completed (snd ?x)))) k =
             (if extracted_with k (printed (the (completed (snd ?x)))) = 0 then None
              else Some (extracted_with k (printed (the (completed (snd ?x))))))" for k
    using dm[THEN conjunct2, THEN spec, of k] .
  have m3: "map_of (typesExtracted (the (completed (snd ?x)))) ''.txt'' = Some 1"
    "map_of (typesExtracted (the (completed (snd ?x)))) ''.md'' = Some 1"
    "map_of (typesExtracted (the (completed (snd ?x)))) ''.png'' = None"
    unfolding m e by simp_all
  have c': "completed (snd ?y) \<noteq> None"
    by code_simp
  have t': "fileTypes (the (completed (snd ?y))) = [(''.txt'', 2), (''.bin'', 1)]"
    by code_simp
  have rd: "readdir (fst ?y) ''out'' = Inr ?es"
    by code_simp
  have n: "count_files ''.txt'' ?es = 2" "count_files ''.bin'' ?es = 1" "count_files ''.md'' ?es = 0"
    by code_simp+
  from statistics_sources[where unzipSync = "\<lambda>d. Inr two_files" and now = example_clock
      and inputFile = "''in.zip''" and outputDir = "''out''" and fs = example_fs
      and fs'' = "fst ?y" and s = "the (completed (snd ?y))", THEN conjunct2, THEN mp,
      OF completed_the[OF c']]
  obtain entries where
    r: "readdir (fst ?y) ''out'' = Inr entries" and
    d': "distinct (map fst (fileTypes (the (completed (snd ?y)))))" and
    m0: "\<forall>k. map_of (fileTypes (the (completed (snd ?y)))) k =
             (if count_files k entries = 0 then None else Some (count_files k entries))"
    by (elim exE conjE) (rule that, assumption+)
  have m': "map_of (fileTypes (the (completed (snd ?y)))) k =
             (if count_files k entries = 0 then None else Some (count_files k entries))" for k
    using m0[THEN spec, of k] .
  from r rd have en: "entries = ?es"
    by (simp only: sum.inject)
  have m3': "map_of (fileTypes (the (completed (snd ?y)))) ''.txt'' = Some 2"
    "map_of (fileTypes (the (completed (snd ?y)))) ''.bin'' = Some 1"
    "map_of (fileTypes (the (completed (snd ?y)))) ''.md'' = None"
    unfolding m' en n by simp_all
  have a1: "map (\<lambda>k. extracted_with k (printed (the (completed (snd ?x)))))
              [''.txt'', ''.md'', ''.png''] = [1, 1, 0]"
    by (simp only: list.map e)
  have a2: "map (map_of (typesExtracted (the (completed (snd ?x))))) [''.txt'', ''.md'', ''.png'']
              = [Some 1, Some 1, None]"
    by (simp only: list.map m3)
  have b1: "map (\<lambda>k. count_files k ?es) [''.txt'', ''.bin'', ''.md''] = [2, 1, 0]"
    by (simp only: list.map n)
  have b2: "map (map_of (fileTypes (the (completed (snd ?y))))) [''.txt'', ''.bin'', ''.md'']
              = [Some 2, Some 1, None]"
    by (simp only: list.map m3')
  from c t a1 d a2 c' t' rd b1 d' b2 show ?thesis
    by (intro conjI)
qed

text \<open>
  The fflate sample extracts one \<^verbatim>\<open>.txt\<close> file and one \<^verbatim>\<open>.bin\<close> file into a
  directory that already held \<^verbatim>\<open>old.txt\<close>: the summary reports two \<^verbatim>\<open>.txt\<close>
  files.
\<close>

theorem statistics_sources_counterexample:
  "map_option fileTypes
     (completed (snd (extractZipFile (\<lambda>d. Inr two_files) example_clock ''in.zip'' ''out'' example_fs)))
     = Some [(''.txt'', 2), (''.bin'', 1)] \<and>
   map fst (journal (fst (extractZipFile (\<lambda>d. Inr two_files) example_clock ''in.zip'' ''out''
                            example_fs)))
     = [''out/a/b.txt'', ''out/a/c.bin''] \<and>
   lookup (root example_fs) [''tmp'', ''out'', ''old.txt''] = Some (File [1, 2])"
  by code_simp

text \<open>
  C10.  The summary of the fflate sample always reports 0 directories.
  \<^verbatim>\<open>dirCount\<close> starts at 0, and the loop returns it as it found it, whatever the
  entries are and whatever the file system does with them.  So the summary reports 0:
  on the file system above, where a run completes only when no entry is a directory
  entry, and also on a file system that accepts names ending in \<^verbatim>\<open>/\<close> as files,
  where a run over an archive with directory entries completes.
\<close>

theorem fflate_reports_no_directories:
  "dirCount counters_init = 0 \<and>
   (extract_loop mkdirs writeFile outputDir entries fs0 st = (fs1, Inr st') \<longrightarrow>
      dirCount st' = dirCount st) \<and>
   (run_and_report mkdirs writeFile typeStats now outputDir inputBytes entries fs0
      = (fs1, Completed s0) \<longrightarrow>
      directories s0 = 0) \<and>
   (extractZipFile unzipSync now inputFile outputDir fs = (fs', Completed s) \<longrightarrow>
      directories s = 0)"
proof -
  have a: "dirCount st' = dirCount st"
    if "extract_loop mkdirs writeFile outputDir entries fs0 st = (fs1, Inr st')"
    using extract_loop_counters[OF that] by simp
  have b: "directories s0 = 0"
    if c: "run_and_report mkdirs writeFile typeStats now outputDir inputBytes entries fs0
             = (fs1, Completed s0)"
  proof -
    from c obtain st where
      l: "extract_loop mkdirs writeFile outputDir entries fs0 counters_init = (fs1, Inr st)" and
      d: "directories s0 = dirCount st"
      by (rule run_and_report_completed)
    from extract_loop_counters[OF l] d show ?thesis
      by (simp add: counters_init_def)
  qed
  have c: "directories s = 0"
    if c: "extractZipFile unzipSync now inputFile outputDir fs = (fs', Completed s)"
  proof -
    from c obtain entries fs1 st where
      l: "extract_files outputDir entries fs1 counters_init = (fs', Inr st)" and
      d: "directories s = dirCount st"
      by (rule extractZipFile_completed)
    from extract_loop_counters[OF l[unfolded extract_files_def]] d show ?thesis
      by (simp add: counters_init_def)
  qed
  from a b c show ?thesis
    by (simp add: counters_init_def)
qed

theorem fflate_reports_no_directories_witness:
  "length (filter (\<lambda>(n, c). trailingSeparator n) folders_and_files) = 2 \<and>
   returned (snd (extract_loop accepting_mkdirs accepting_writeFile ''out'' folders_and_files []
                    counters_init)) \<noteq> None \<and>
   map fst (fst (extract_loop accepting_mkdirs accepting_writeFile ''out'' folders_and_files []
                   counters_init))
     = [''out/docs/'', ''out/docs/a.txt'', ''out/img/''] \<and>
   fileCount (the (returned (snd (extract_loop accepting_mkdirs accepting_writeFile ''out''
                                    folders_and_files [] counters_init)))) = 3 \<and>
   dirCount (the (returned (snd (extract_loop accepting_mkdirs accepting_writeFile ''out''
                                   folders_and_files [] counters_init)))) = 0 \<and>
   completed (snd (run_and_report accepting_mkdirs accepting_writeFile accepting_typeStats
                     example_clock ''out'' 4 folders_and_files [])) \<noteq> None \<and>
   files (the (completed (snd (run_and_report accepting_mkdirs accepting_writeFile
                                 accepting_typeStats example_clock ''out'' 4 folders_and_files []))))
     = 3 \<and>
   directories (the (completed (snd (run_and_report accepting_mkdirs accepting_writeFile
                                       accepting_typeStats example_clock ''out'' 4
                                       folders_and_files [])))) = 0 \<and>
   completed (snd (extractZipFile (\<lambda>d. Inr two_files) example_clock ''in.zip'' ''out'' example_fs))
     \<noteq> None \<and>
   directories (the (completed (snd (extractZipFile (\<lambda>d. Inr two_files) example_clock ''in.zip''
                                       ''out'' example_fs)))) = 0 \<and>
   lookup (root (fst (extractZipFile (\<lambda>d. Inr two_files) example_clock ''in.zip'' ''out'' example_fs)))
     [''tmp'', ''out'', ''a''] =
     Some (Dir [(''b.txt'', File (replicate 10 65)), (''c.bin'', File (replicate 50 0))])"
proof -
  let ?l = "extract_loop accepting_mkdirs accepting_writeFile ''out'' folders_and_files []
              counters_init"
  let ?r = "run_and_report accepting_mkdirs accepting_writeFile accepting_typeStats
              example_clock ''out'' 4 folders_and_files []"
  let ?x = "extractZipFile (\<lambda>d. Inr two_files) example_clock ''in.zip'' ''out'' example_fs"
  have n: "length (filter (\<lambda>(n, c). trailingSeparator n) folders_and_files) = 2"
    by code_simp
  have r: "returned (snd ?l) \<noteq> None"
    by code_simp
  have j: "map fst (fst ?l) = [''out/docs/'', ''out/docs/a.txt'', ''out/img/'']"
    by code_simp
  have f: "fileCount (the (returned (snd ?l))) = 3"
    by code_simp
  have z: "dirCount counters_init = 0"
    using fflate_reports_no_directories[THEN conjunct1] .
  have "dirCount (the (returned (snd ?l))) = dirCount counters_init"
    using fflate_reports_no_directories[where mkdirs = accepting_mkdirs
        and writeFile = accepting_writeFile and outputDir = "''out''"
        and entries = folders_and_files and ?fs0.0 = "[]" and st = counters_init
        and ?fs1.0 = "fst ?l" and st' = "the (returned (snd ?l))",
        THEN conjunct2, THEN conjunct1, THEN mp, OF returned_run[OF r]] .
  then have d: "dirCount (the (returned (snd ?l))) = 0"
    unfolding z .
  have rc: "completed (snd ?r) \<noteq> None"
    by code_simp
  have rf: "files (the (completed (snd ?r))) = 3"
    by code_simp
  have rd: "directories (the (completed (snd ?r))) = 0"
    using fflate_reports_no_directories[where mkdirs = accepting_mkdirs
        and writeFile = accepting_writeFile and typeStats = accepting_typeStats
        and now = example_clock and outputDir = "''out''" and inputBytes = 4
        and entries = folders_and_files and ?fs0.0 = "[]"
        and ?fs1.0 = "fst ?r" and ?s0.0 = "the (completed (snd ?r))",
        THEN conjunct2, THEN conjunct2, THEN conjunct1, THEN mp, OF completed_the[OF rc]] .
  have c: "completed (snd ?x) \<noteq> None"
    by code_simp
  have s: "directories (the (completed (snd ?x))) = 0"
    using fflate_reports_no_directories[where unzipSync = "\<lambda>d. Inr two_files"
        and now = example_clock and inputFile = "''in.zip''" and outputDir = "''out''"
        and fs = example_fs and fs' = "fst ?x" and s = "the (completed (snd ?x))",
        THEN conjunct2, THEN conjunct2, THEN conjunct2, THEN mp, OF completed_the[OF c]] .
  have t: "lookup (root (fst ?x)) [''tmp'', ''out'', ''a''] =
     Some (Dir [(''b.txt'', File (replicate 10 65)), (''c.bin'', File (replicate 50 0))])"
    by code_simp
  from n r j f d rc rf rd c s t show ?thesis
    by (intro conjI)
qed

end
